theory Spec2Isabelle
  imports Main "HOL-Library.Sublist" "HOL-Library.Word"
begin

unbundle bit_operations_syntax

section \<open>Go library functions used by EncryptBckDocs.go\<close>

text \<open>
  Go strings are byte sequences; they are modelled as \<open>string\<close> (a list of 8-bit
  characters). Indices and lengths are Go \<open>int\<close>s, modelled as \<open>int\<close> (no string of
  this program comes near the 64-bit range).
\<close>

subsection \<open>strings.Index, strings.LastIndex and slice expressions\<close>

definition occurs_at :: "string \<Rightarrow> string \<Rightarrow> nat \<Rightarrow> bool" where
  "occurs_at s substr i = (take (length substr) (drop i s) = substr)"

text \<open>\<open>strings.LastIndex(s, substr)\<close>: the index of the last instance of \<open>substr\<close> in
  \<open>s\<close>, or \<open>-1\<close> if there is none. The scan runs downwards from the position given.\<close>

fun LastIndex_from :: "string \<Rightarrow> string \<Rightarrow> nat \<Rightarrow> int" where
  "LastIndex_from s substr 0 = (if occurs_at s substr 0 then 0 else -1)"
| "LastIndex_from s substr (Suc i) =
     (if occurs_at s substr (Suc i) then int (Suc i) else LastIndex_from s substr i)"

definition LastIndex :: "string \<Rightarrow> string \<Rightarrow> int" where
  "LastIndex s substr = LastIndex_from s substr (length s)"

text \<open>\<open>strings.Index(s, substr)\<close>: the index of the first instance, or \<open>-1\<close>.\<close>

fun Index_from :: "string \<Rightarrow> string \<Rightarrow> nat \<Rightarrow> int" where
  "Index_from [] substr i = (if substr = [] then int i else -1)"
| "Index_from (c # cs) substr i =
     (if take (length substr) (c # cs) = substr then int i else Index_from cs substr (Suc i))"

definition Index :: "string \<Rightarrow> string \<Rightarrow> int" where
  "Index s substr = Index_from s substr 0"

text \<open>The slice expression \<open>s[lo:hi]\<close>. Go panics at run time (slice bounds out of range)
  unless \<open>0 \<le> lo \<le> hi \<le> len(s)\<close>; the panic is the value \<open>None\<close>.\<close>

definition slice :: "string \<Rightarrow> int \<Rightarrow> int \<Rightarrow> string option" where
  "slice s lo hi =
     (if 0 \<le> lo \<and> lo \<le> hi \<and> hi \<le> int (length s)
      then Some (take (nat hi - nat lo) (drop (nat lo) s))
      else None)"

definition PathSeparator :: char where
  "PathSeparator = CHR ''/''"

subsection \<open>filepath.Base\<close>

text \<open>\<open>filepath.Base\<close> (Unix): the last element of the path. Trailing separators are
  removed first; the empty path gives \<open>"."\<close>, a path of separators only gives \<open>"/"\<close>.\<close>

definition filepath_Base :: "string \<Rightarrow> string" where
  "filepath_Base path =
     (if path = [] then ''.''
      else
        let stripped = rev (dropWhile (\<lambda>c. c = PathSeparator) (rev path));
            element = rev (takeWhile (\<lambda>c. c \<noteq> PathSeparator) (rev stripped))
        in if element = [] then [PathSeparator] else element)"

section \<open>The file filters\<close>

definition configFileName :: string where
  "configFileName = ''config.json''"

definition clientSecretFileName :: string where
  "clientSecretFileName = ''client_secret.json''"

definition appFiles :: "string list" where
  "appFiles = [configFileName, clientSecretFileName, ''EncryptBckDocs.go'', ''EncryptBckDocs'']"

text \<open>The loop of \<open>isNotAppFile\<close> over the names still to be tried.\<close>

fun isNotAppFile_loop :: "string list \<Rightarrow> string \<Rightarrow> bool" where
  "isNotAppFile_loop [] fileName = True"
| "isNotAppFile_loop (name # names) fileName =
     (let indexOfName = LastIndex fileName name;
          nameLength = int (length name);
          fileNameLength = int (length fileName)
      in if fileNameLength - nameLength = indexOfName then False
         else isNotAppFile_loop names fileName)"

definition isNotAppFile :: "string \<Rightarrow> bool" where
  "isNotAppFile fileName = isNotAppFile_loop appFiles fileName"

text \<open>Despite its name, \<open>isNotHiddenFile\<close> is true of the paths that contain \<open>"/."\<close>; both
  callers negate it.\<close>

definition isNotHiddenFile :: "string \<Rightarrow> bool" where
  "isNotHiddenFile fileName = (Index fileName ''/.'' \<noteq> -1)"

section \<open>The configuration record and its JSON form\<close>

text \<open>
  A Go slice is \<open>nil\<close> or holds a sequence of elements; \<open>None\<close> is the \<open>nil\<close> slice. \<open>len\<close>,
  indexing and \<open>range\<close> see the elements only, and make no difference between \<open>nil\<close> and an
  empty slice; \<open>json.Marshal\<close> does.
\<close>

definition elements :: "'a list option \<Rightarrow> 'a list" where
  "elements s = (case s of None \<Rightarrow> [] | Some xs \<Rightarrow> xs)"

record appConfig =
  FolderName :: string
  LastUpdate :: string
  FolderToWatch :: "string list option"

subsection \<open>unicode/utf8\<close>

definition RuneError :: nat where
  "RuneError = 0xFFFD"

definition byte :: "char \<Rightarrow> nat" where
  "byte c = of_char c"

text \<open>\<open>utf8.DecodeRune\<close>: the first rune of the bytes and its width. An invalid or short
  encoding gives \<open>(RuneError, 1)\<close>, no bytes at all \<open>(RuneError, 0)\<close>. The second byte is
  checked against the range its first byte accepts, the others against \<open>0x80..0xBF\<close>.\<close>

definition continuation :: "char \<Rightarrow> bool" where
  "continuation c = (0x80 \<le> byte c \<and> byte c \<le> 0xBF)"

definition accept_lo :: "nat \<Rightarrow> nat" where
  "accept_lo b0 = (if b0 = 0xE0 then 0xA0 else if b0 = 0xF0 then 0x90 else 0x80)"

definition accept_hi :: "nat \<Rightarrow> nat" where
  "accept_hi b0 = (if b0 = 0xED then 0x9F else if b0 = 0xF4 then 0x8F else 0xBF)"

definition rune_width :: "nat \<Rightarrow> nat" where
  "rune_width b0 =
     (if b0 < 0x80 then 1
      else if 0xC2 \<le> b0 \<and> b0 \<le> 0xDF then 2
      else if 0xE0 \<le> b0 \<and> b0 \<le> 0xEF then 3
      else if 0xF0 \<le> b0 \<and> b0 \<le> 0xF4 then 4
      else 0)"

fun DecodeRune :: "string \<Rightarrow> nat \<times> nat" where
  "DecodeRune [] = (RuneError, 0)"
| "DecodeRune (c0 # p) =
     (let b0 = byte c0; sz = rune_width b0 in
      if sz = 1 then (b0, 1)
      else if sz = 0 \<or> length (c0 # p) < sz then (RuneError, 1)
      else
        let b1 = byte (p ! 0) in
        if b1 < accept_lo b0 \<or> accept_hi b0 < b1 then (RuneError, 1)
        else if sz \<le> 2 then ((b0 mod 32) * 64 + b1 mod 64, 2)
        else
          let c2 = p ! 1 in
          if \<not> continuation c2 then (RuneError, 1)
          else if sz \<le> 3 then ((b0 mod 16) * 4096 + (b1 mod 64) * 64 + byte c2 mod 64, 3)
          else
            let c3 = p ! 2 in
            if \<not> continuation c3 then (RuneError, 1)
            else ((b0 mod 8) * 262144 + (b1 mod 64) * 4096 + (byte c2 mod 64) * 64
                  + byte c3 mod 64, 4))"

text \<open>\<open>utf8.EncodeRune\<close>: a surrogate half or a value beyond U+10FFFF is written as
  U+FFFD.\<close>

definition EncodeRune :: "nat \<Rightarrow> string" where
  "EncodeRune r =
     (if r \<le> 0x7F then [char_of r]
      else if r \<le> 0x7FF then [char_of (0xC0 + r div 64), char_of (0x80 + r mod 64)]
      else
        let r = (if 0x10FFFF < r \<or> (0xD800 \<le> r \<and> r \<le> 0xDFFF) then RuneError else r) in
        if r \<le> 0xFFFF
        then [char_of (0xE0 + r div 4096), char_of (0x80 + r div 64 mod 64),
              char_of (0x80 + r mod 64)]
        else [char_of (0xF0 + r div 262144), char_of (0x80 + r div 4096 mod 64),
              char_of (0x80 + r div 64 mod 64), char_of (0x80 + r mod 64)])"

text \<open>\<open>utf8.ValidString\<close>: no rune of the string decodes to \<open>(RuneError, 1)\<close>.\<close>

function valid_utf8 :: "string \<Rightarrow> bool" where
  "valid_utf8 [] = True"
| "valid_utf8 (c # s) =
     (case DecodeRune (c # s) of
        (r, width) \<Rightarrow> \<not> (r = RuneError \<and> width = 1) \<and> valid_utf8 (drop width (c # s)))"
  by pat_completeness auto
termination
  by (relation "measure length") (auto simp: Let_def split: if_splits)

subsection \<open>json.Marshal of an appConfig\<close>

text \<open>
  \<open>encoding/json\<close> is a library, not code of the program; encoder and decoder are modelled
  from the package's documentation and its scanner, for the one type the program passes
  them.
\<close>

abbreviation dquote :: char where
  "dquote \<equiv> CHR 0x22"

abbreviation backslash :: char where
  "backslash \<equiv> CHR 0x5C"

definition hex :: "nat \<Rightarrow> char" where
  "hex n = ''0123456789abcdef'' ! n"

text \<open>The bytes that the encoder copies as they are: printable ASCII but for the quote, the
  backslash and the three characters it escapes for HTML.\<close>

definition htmlSafe :: "char \<Rightarrow> bool" where
  "htmlSafe c =
     (0x20 \<le> byte c \<and> byte c < 0x80 \<and> c \<noteq> dquote \<and> c \<noteq> backslash
      \<and> c \<noteq> CHR ''<'' \<and> c \<noteq> CHR ''>'' \<and> c \<noteq> CHR ''&'')"

text \<open>The escape of an ASCII byte that is not copied. (Go before 1.22 wrote backspace and
  form feed with \<open>u0008\<close> and \<open>u000c\<close>; the decoder reads both forms as the same byte.)\<close>

definition escape_ascii :: "char \<Rightarrow> string" where
  "escape_ascii c =
     (if c = backslash \<or> c = dquote then [backslash, c]
      else if c = CHR 0x08 then [backslash, CHR ''b'']
      else if c = CHR 0x0C then [backslash, CHR ''f'']
      else if c = CHR 0x0A then [backslash, CHR ''n'']
      else if c = CHR 0x0D then [backslash, CHR ''r'']
      else if c = CHR 0x09 then [backslash, CHR ''t'']
      else [backslash] @ ''u00'' @ [hex (byte c div 16), hex (byte c mod 16)])"

text \<open>The encoder's loop over a string value. ASCII is copied or escaped; an invalid byte
  becomes the escape of U+FFFD (a backslash and \<open>ufffd\<close>); U+2028 and U+2029 are escaped; every other rune is
  copied with all its bytes.\<close>

function encode_chars :: "string \<Rightarrow> string" where
  "encode_chars [] = []"
| "encode_chars (c # s) =
     (if byte c < 0x80 then
        (if htmlSafe c then [c] else escape_ascii c) @ encode_chars s
      else
        (case DecodeRune (c # s) of (r, width) \<Rightarrow>
           if r = RuneError \<and> width = 1 then [backslash] @ ''ufffd'' @ encode_chars s
           else if r = 0x2028 \<or> r = 0x2029 then
             [backslash] @ ''u202'' @ [hex (r mod 16)] @ encode_chars (drop width (c # s))
           else take width (c # s) @ encode_chars (drop width (c # s))))"
  by pat_completeness auto
termination
  by (relation "measure length") (auto simp: Let_def split: if_splits)

definition encode_string :: "string \<Rightarrow> string" where
  "encode_string s = [dquote] @ encode_chars s @ [dquote]"

fun encode_elems :: "string list \<Rightarrow> string" where
  "encode_elems [] = []"
| "encode_elems [s] = encode_string s"
| "encode_elems (s # t # ss) = encode_string s @ '','' @ encode_elems (t # ss)"

text \<open>A \<open>nil\<close> slice is written \<open>null\<close>, any other as an array.\<close>

definition encode_slice :: "string list option \<Rightarrow> string" where
  "encode_slice s = (case s of None \<Rightarrow> ''null'' | Some ss \<Rightarrow> ''['' @ encode_elems ss @ '']'')"

text \<open>\<open>json.Marshal(configApp)\<close>: the fields in the order of the struct, under the names of
  their tags. For a struct of strings and a slice of strings \<open>Marshal\<close> has no error to
  return; the result type keeps the error the caller tests for.\<close>

definition json_Marshal :: "appConfig \<Rightarrow> string + string" where
  "json_Marshal v =
     Inr (''{'' @ encode_string ''folderName'' @ '':'' @ encode_string (FolderName v)
          @ '','' @ encode_string ''lastUpdate'' @ '':'' @ encode_string (LastUpdate v)
          @ '','' @ encode_string ''folderToWatch'' @ '':'' @ encode_slice (FolderToWatch v)
          @ ''}'')"

text \<open>What the encoder makes of a string, as the package documents it: the string coerced to
  valid UTF-8, each invalid byte replaced by U+FFFD.\<close>

function coerced :: "string \<Rightarrow> string" where
  "coerced [] = []"
| "coerced (c # s) =
     (case DecodeRune (c # s) of
        (r, width) \<Rightarrow>
          if r = RuneError \<and> width = 1 then EncodeRune RuneError @ coerced s
          else take width (c # s) @ coerced (drop width (c # s)))"
  by pat_completeness auto
termination
  by (relation "measure length") (auto simp: Let_def split: if_splits)

definition coerced_appConfig :: "appConfig \<Rightarrow> appConfig" where
  "coerced_appConfig v =
     \<lparr>FolderName = coerced (FolderName v), LastUpdate = coerced (LastUpdate v),
      FolderToWatch = map_option (map coerced) (FolderToWatch v)\<rparr>"

definition valid_appConfig :: "appConfig \<Rightarrow> bool" where
  "valid_appConfig v =
     (valid_utf8 (FolderName v) \<and> valid_utf8 (LastUpdate v)
      \<and> list_all valid_utf8 (elements (FolderToWatch v)))"

subsection \<open>json.Decoder.Decode into an appConfig\<close>

text \<open>
  \<open>Decode\<close> reads the next JSON value of its input, checking the syntax byte by byte
  (\<open>readValue\<close>, driven by the scanner's \<open>step\<close>), and then stores the value into the struct
  (\<open>unmarshal\<close>). The model keeps the value read as a tree between the two.
\<close>

datatype json =
    JNull
  | JBool bool
  | JNumber
  | JString string
  | JArray "json list"
  | JObject "(string \<times> json) list"

text \<open>The errors of \<open>Decode\<close>: a \<open>*json.SyntaxError\<close>, \<open>io.ErrUnexpectedEOF\<close>, \<open>io.EOF\<close>, and a
  \<open>*json.UnmarshalTypeError\<close> with the kind of JSON value that did not fit.\<close>

datatype json_error = SyntaxError | ErrUnexpectedEOF | EOF | UnmarshalTypeError string

text \<open>The value of a hexadecimal digit, of either case.\<close>

definition hex_value :: "char \<Rightarrow> nat option" where
  "hex_value c =
     (let b = byte c in
      if 0x30 \<le> b \<and> b \<le> 0x39 then Some (b - 0x30)
      else if 0x61 \<le> b \<and> b \<le> 0x66 then Some (b - 0x61 + 10)
      else if 0x41 \<le> b \<and> b \<le> 0x46 then Some (b - 0x41 + 10)
      else None)"

text \<open>\<open>getu4\<close>, applied to what follows the two characters of a \<open>u\<close> escape: the value
  of four hexadecimal digits.\<close>

definition getu4 :: "string \<Rightarrow> nat option" where
  "getu4 s =
     (case s of
        a # b # c # d # rest \<Rightarrow>
          (case (hex_value a, hex_value b, hex_value c, hex_value d) of
             (Some x3, Some x2, Some x1, Some x0) \<Rightarrow> Some (x3 * 4096 + x2 * 256 + x1 * 16 + x0)
           | other \<Rightarrow> None)
      | short \<Rightarrow> None)"

text \<open>The second half of a surrogate pair: a further \<open>u\<close> escape with a value in
  \<open>0xDC00..0xDFFF\<close>.\<close>

definition low_surrogate :: "string \<Rightarrow> nat option" where
  "low_surrogate s =
     (case s of
        c # e # rest \<Rightarrow>
          (if c = backslash \<and> e = CHR ''u'' then
             (case getu4 rest of
                Some r1 \<Rightarrow> if 0xDC00 \<le> r1 \<and> r1 < 0xE000 then Some r1 else None
              | None \<Rightarrow> None)
           else None)
      | short \<Rightarrow> None)"

definition unescape :: "char \<Rightarrow> char option" where
  "unescape e =
     (if e = dquote \<or> e = backslash \<or> e = CHR ''/'' \<or> e = CHR 0x27 then Some e
      else if e = CHR ''b'' then Some (CHR 0x08)
      else if e = CHR ''f'' then Some (CHR 0x0C)
      else if e = CHR ''n'' then Some (CHR 0x0A)
      else if e = CHR ''r'' then Some (CHR 0x0D)
      else if e = CHR ''t'' then Some (CHR 0x09)
      else None)"

definition emit :: "string \<Rightarrow> string option \<Rightarrow> string option" where
  "emit bytes rest = (case rest of None \<Rightarrow> None | Some t \<Rightarrow> Some (bytes @ t))"

text \<open>\<open>unquote\<close>, on the bytes between the quotes of a literal the scanner has accepted:
  escapes are replaced by what they stand for, a surrogate pair by its rune, a lone
  surrogate by U+FFFD; every other rune is decoded and written again, so that a byte that
  is not valid UTF-8 becomes U+FFFD. \<open>None\<close> is the result \<open>ok = false\<close>, which a literal the
  scanner has accepted does not give.\<close>

function unquote :: "string \<Rightarrow> string option" where
  "unquote [] = Some []"
| "unquote (c # s) =
     (if c = backslash then
        (case s of
           [] \<Rightarrow> None
         | e # s1 \<Rightarrow>
             if e = CHR ''u'' then
               (case getu4 s1 of
                  None \<Rightarrow> None
                | Some rr \<Rightarrow>
                    if 0xD800 \<le> rr \<and> rr < 0xE000 then
                      (case (if rr < 0xDC00 then low_surrogate (drop 4 s1) else None) of
                         Some rr1 \<Rightarrow>
                           emit (EncodeRune ((rr - 0xD800) * 1024 + (rr1 - 0xDC00) + 0x10000))
                                (unquote (drop 10 s1))
                       | None \<Rightarrow> emit (EncodeRune RuneError) (unquote (drop 4 s1)))
                    else emit (EncodeRune rr) (unquote (drop 4 s1)))
             else
               (case unescape e of
                  None \<Rightarrow> None
                | Some b \<Rightarrow> emit [b] (unquote s1)))
      else if c = dquote \<or> byte c < 0x20 then None
      else if byte c < 0x80 then emit [c] (unquote s)
      else
        (case DecodeRune (c # s) of
           (rr, width) \<Rightarrow> emit (EncodeRune rr) (unquote (drop width (c # s)))))"
  by pat_completeness auto
termination
  by (relation "measure length") (auto simp: Let_def split: if_splits)

text \<open>
  The scanner is a state machine over the bytes. \<open>scanning\<close> is the state function it is in
  (\<open>stateBeginValue\<close>, \<open>stateInString\<close>, \<open>state0\<close>, ...), with what the model has collected:
  the bytes of a string literal so far and where it is in an escape (\<open>Hex n\<close>: \<open>n\<close>
  hexadecimal digits still to come), the value a literal name stands for and the bytes it
  still expects, the value that has just ended. \<open>parse\<close> is an entry of the scanner's stack
  \<open>parseState\<close>, with the members or elements read so far and the key a value is for.
\<close>

datatype lit = Plain | Esc | Hex nat

datatype scanning =
    BeginValue
  | BeginValueOrEmpty
  | BeginStringOrEmpty
  | BeginString
  | InString lit string
  | NumNeg
  | Num0
  | Num1
  | NumDot
  | NumDot0
  | NumE
  | NumESign
  | NumE0
  | InLiteral json string
  | EndValue json

datatype parse =
    ObjectKey "(string \<times> json) list"
  | ObjectValue "(string \<times> json) list" string
  | ArrayValue "json list"

text \<open>What a step returns: the scan goes on, the top-level value has ended, or the byte is
  a syntax error.\<close>

datatype scan = scanContinue scanning "parse list" | scanEnd json | scanError

definition isSpace :: "char \<Rightarrow> bool" where
  "isSpace c = (c = CHR '' '' \<or> c = CHR 0x09 \<or> c = CHR 0x0D \<or> c = CHR 0x0A)"

definition digit :: "char \<Rightarrow> bool" where
  "digit c = (0x30 \<le> byte c \<and> byte c \<le> 0x39)"

definition maxNestingDepth :: nat where
  "maxNestingDepth = 10000"

definition pushParseState :: "scanning \<Rightarrow> parse \<Rightarrow> parse list \<Rightarrow> scan" where
  "pushParseState successState newParseState parseState =
     (if length (newParseState # parseState) \<le> maxNestingDepth
      then scanContinue successState (newParseState # parseState)
      else scanError)"

text \<open>A value that ends with the byte just read. When it is the top-level value, \<open>Decode\<close>
  reads no further.\<close>

definition ended :: "json \<Rightarrow> parse list \<Rightarrow> scan" where
  "ended j parseState =
     (if parseState = [] then scanEnd j else scanContinue (EndValue j) parseState)"

text \<open>\<open>stateEndValue\<close>: the byte after a value. After a key (a string) it is the colon;
  after the value of a member or an element of an array, a comma or the closing bracket.\<close>

definition stateEndValue :: "json \<Rightarrow> parse list \<Rightarrow> char \<Rightarrow> scan" where
  "stateEndValue j parseState c =
     (case parseState of
        [] \<Rightarrow> scanEnd j
      | ps # below \<Rightarrow>
          if isSpace c then scanContinue (EndValue j) parseState
          else
            (case ps of
               ObjectKey members \<Rightarrow>
                 (case j of
                    JString key \<Rightarrow>
                      if c = CHR '':'' then scanContinue BeginValue (ObjectValue members key # below)
                      else scanError
                  | other \<Rightarrow> scanError)
             | ObjectValue members key \<Rightarrow>
                 if c = CHR '','' then
                   scanContinue BeginString (ObjectKey (members @ [(key, j)]) # below)
                 else if c = CHR ''}'' then ended (JObject (members @ [(key, j)])) below
                 else scanError
             | ArrayValue elems \<Rightarrow>
                 if c = CHR '','' then scanContinue BeginValue (ArrayValue (elems @ [j]) # below)
                 else if c = CHR '']'' then ended (JArray (elems @ [j])) below
                 else scanError))"

definition stateBeginValue :: "parse list \<Rightarrow> char \<Rightarrow> scan" where
  "stateBeginValue parseState c =
     (if isSpace c then scanContinue BeginValue parseState
      else if c = CHR ''{'' then pushParseState BeginStringOrEmpty (ObjectKey []) parseState
      else if c = CHR ''['' then pushParseState BeginValueOrEmpty (ArrayValue []) parseState
      else if c = dquote then scanContinue (InString Plain []) parseState
      else if c = CHR ''-'' then scanContinue NumNeg parseState
      else if c = CHR ''0'' then scanContinue Num0 parseState
      else if c = CHR ''t'' then scanContinue (InLiteral (JBool True) ''rue'') parseState
      else if c = CHR ''f'' then scanContinue (InLiteral (JBool False) ''alse'') parseState
      else if c = CHR ''n'' then scanContinue (InLiteral JNull ''ull'') parseState
      else if digit c then scanContinue Num1 parseState
      else scanError)"

definition stateBeginString :: "parse list \<Rightarrow> char \<Rightarrow> scan" where
  "stateBeginString parseState c =
     (if isSpace c then scanContinue BeginString parseState
      else if c = dquote then scanContinue (InString Plain []) parseState
      else scanError)"

definition state0 :: "parse list \<Rightarrow> char \<Rightarrow> scan" where
  "state0 parseState c =
     (if c = CHR ''.'' then scanContinue NumDot parseState
      else if c = CHR ''e'' \<or> c = CHR ''E'' then scanContinue NumE parseState
      else stateEndValue JNumber parseState c)"

definition stateESign :: "parse list \<Rightarrow> char \<Rightarrow> scan" where
  "stateESign parseState c = (if digit c then scanContinue NumE0 parseState else scanError)"

fun step :: "scanning \<Rightarrow> parse list \<Rightarrow> char \<Rightarrow> scan" where
  "step BeginValue parseState c = stateBeginValue parseState c"
| "step BeginValueOrEmpty parseState c =
     (if isSpace c then scanContinue BeginValueOrEmpty parseState
      else if c = CHR '']'' then
        (case parseState of
           ArrayValue elems # below \<Rightarrow> ended (JArray elems) below
         | other \<Rightarrow> scanError)
      else stateBeginValue parseState c)"
| "step BeginStringOrEmpty parseState c =
     (if isSpace c then scanContinue BeginStringOrEmpty parseState
      else if c = CHR ''}'' then
        (case parseState of
           ObjectKey members # below \<Rightarrow> ended (JObject members) below
         | other \<Rightarrow> scanError)
      else stateBeginString parseState c)"
| "step BeginString parseState c = stateBeginString parseState c"
| "step (InString Plain raw) parseState c =
     (if c = dquote then
        (case unquote raw of
           None \<Rightarrow> scanError
         | Some s \<Rightarrow> ended (JString s) parseState)
      else if c = backslash then scanContinue (InString Esc (raw @ [c])) parseState
      else if byte c < 0x20 then scanError
      else scanContinue (InString Plain (raw @ [c])) parseState)"
| "step (InString Esc raw) parseState c =
     (if c = CHR ''u'' then scanContinue (InString (Hex 4) (raw @ [c])) parseState
      else if c \<in> set ''bfnrt/'' \<or> c = backslash \<or> c = dquote
      then scanContinue (InString Plain (raw @ [c])) parseState
      else scanError)"
| "step (InString (Hex n) raw) parseState c =
     (if hex_value c = None then scanError
      else scanContinue (InString (if n \<le> 1 then Plain else Hex (n - 1)) (raw @ [c])) parseState)"
| "step NumNeg parseState c =
     (if c = CHR ''0'' then scanContinue Num0 parseState
      else if digit c then scanContinue Num1 parseState
      else scanError)"
| "step Num0 parseState c = state0 parseState c"
| "step Num1 parseState c =
     (if digit c then scanContinue Num1 parseState else state0 parseState c)"
| "step NumDot parseState c =
     (if digit c then scanContinue NumDot0 parseState else scanError)"
| "step NumDot0 parseState c =
     (if digit c then scanContinue NumDot0 parseState
      else if c = CHR ''e'' \<or> c = CHR ''E'' then scanContinue NumE parseState
      else stateEndValue JNumber parseState c)"
| "step NumE parseState c =
     (if c = CHR ''+'' \<or> c = CHR ''-'' then scanContinue NumESign parseState
      else stateESign parseState c)"
| "step NumESign parseState c = stateESign parseState c"
| "step NumE0 parseState c =
     (if digit c then scanContinue NumE0 parseState else stateEndValue JNumber parseState c)"
| "step (InLiteral j expected) parseState c =
     (case expected of
        [] \<Rightarrow> scanError
      | e # others \<Rightarrow>
          if c \<noteq> e then scanError
          else if others = [] then ended j parseState
          else scanContinue (InLiteral j others) parseState)"
| "step (EndValue j) parseState c = stateEndValue j parseState c"

text \<open>
  \<open>readValue\<close>: the bytes of the input are stepped through until the top-level value ends.
  At the end of the input a number at the top level is complete; input of white space only
  is \<open>io.EOF\<close>; any other is cut short.
\<close>

fun readValue :: "scanning \<Rightarrow> parse list \<Rightarrow> string \<Rightarrow> json_error + json" where
  "readValue s parseState [] =
     (if parseState = [] \<and> s \<in> {Num0, Num1, NumDot0, NumE0} then Inr JNumber
      else if parseState = [] \<and> s = BeginValue then Inl EOF
      else Inl ErrUnexpectedEOF)"
| "readValue s parseState (c # cs) =
     (case step s parseState c of
        scanContinue s' parseState' \<Rightarrow> readValue s' parseState' cs
      | scanEnd j \<Rightarrow> Inr j
      | scanError \<Rightarrow> Inl SyntaxError)"

text \<open>
  \<open>unmarshal\<close> stores the value into the struct. A value that does not fit its destination
  is skipped and leaves it as it is; the first such error is saved and returned at the end,
  with the struct as far as it was filled. \<open>null\<close> leaves a string as it is and makes a
  slice \<open>nil\<close>.
\<close>

definition kind :: "json \<Rightarrow> string" where
  "kind j =
     (case j of
        JNull \<Rightarrow> ''null''
      | JBool b \<Rightarrow> ''bool''
      | JNumber \<Rightarrow> ''number''
      | JString s \<Rightarrow> ''string''
      | JArray elems \<Rightarrow> ''array''
      | JObject members \<Rightarrow> ''object'')"

definition saveError :: "json_error \<Rightarrow> json_error option \<Rightarrow> json_error option" where
  "saveError err savedError = (case savedError of None \<Rightarrow> Some err | Some first \<Rightarrow> Some first)"

definition store_string :: "json \<Rightarrow> string \<Rightarrow> json_error option \<Rightarrow> string \<times> json_error option" where
  "store_string j v savedError =
     (case j of
        JString s \<Rightarrow> (s, savedError)
      | JNull \<Rightarrow> (v, savedError)
      | other \<Rightarrow> (v, saveError (UnmarshalTypeError (kind j)) savedError))"

text \<open>An array into the slice: the elements of the array are stored into the elements
  of the slice, in order, and the slice is grown or cut to the length of the array; so an
  element that is \<open>null\<close> or not a string leaves what the slice held at its index. (Beyond the
  former length of the slice that is the empty string in the model. The implementation
  can find there what a longer array left in the memory of the slice, when a document
  repeats the key more than once.)\<close>

definition store_elems ::
  "json list \<Rightarrow> string list \<Rightarrow> json_error option \<Rightarrow> string list \<times> json_error option" where
  "store_elems js former savedError =
     foldl (\<lambda>acc j. case acc of (elems, saved) \<Rightarrow>
                       (case store_string j
                               (if length elems < length former then former ! length elems else [])
                               saved of
                          (s, saved') \<Rightarrow> (elems @ [s], saved')))
           ([], savedError) js"

definition store_slice ::
  "json \<Rightarrow> string list option \<Rightarrow> json_error option \<Rightarrow> string list option \<times> json_error option" where
  "store_slice j v savedError =
     (case j of
        JNull \<Rightarrow> (None, savedError)
      | JArray js \<Rightarrow>
          (case store_elems js (elements v) savedError of (elems, saved) \<Rightarrow> (Some elems, saved))
      | other \<Rightarrow> (v, saveError (UnmarshalTypeError (kind j)) savedError))"

text \<open>
  The field a key names: the field whose tag is the key, or else the first whose tag equals
  it under Unicode case folding. The tags are ASCII; a rune folds to an ASCII letter when
  it is that letter in either case, U+017F for \<open>s\<close> or U+212A for \<open>k\<close>.
\<close>

definition tags :: "string list" where
  "tags = [''folderName'', ''lastUpdate'', ''folderToWatch'']"

definition folded :: "char \<Rightarrow> nat" where
  "folded c = (if 0x61 \<le> byte c \<and> byte c \<le> 0x7A then byte c - 0x20 else byte c)"

fun equalFold :: "string \<Rightarrow> string \<Rightarrow> bool" where
  "equalFold [] t = (t = [])"
| "equalFold (sb # s) t =
     (case t of
        [] \<Rightarrow> False
      | tb # t' \<Rightarrow>
          if byte tb < 0x80 then folded sb = folded tb \<and> equalFold s t'
          else
            (case DecodeRune t of
               (tr, width) \<Rightarrow>
                 (folded sb = 0x53 \<and> tr = 0x17F \<or> folded sb = 0x4B \<and> tr = 0x212A)
                 \<and> equalFold s (drop width t)))"

definition find_field :: "string \<Rightarrow> string option" where
  "find_field key =
     (if key \<in> set tags then Some key
      else
        (case filter (\<lambda>name. equalFold name key) tags of
           [] \<Rightarrow> None
         | name # others \<Rightarrow> Some name))"

definition store_member ::
  "appConfig \<times> json_error option \<Rightarrow> string \<times> json \<Rightarrow> appConfig \<times> json_error option" where
  "store_member acc member =
     (case acc of (v, savedError) \<Rightarrow>
        (case member of (key, j) \<Rightarrow>
           (case find_field key of
              None \<Rightarrow> (v, savedError)
            | Some name \<Rightarrow>
                if name = ''folderName'' then
                  (case store_string j (FolderName v) savedError of
                     (s, saved) \<Rightarrow> (v\<lparr>FolderName := s\<rparr>, saved))
                else if name = ''lastUpdate'' then
                  (case store_string j (LastUpdate v) savedError of
                     (s, saved) \<Rightarrow> (v\<lparr>LastUpdate := s\<rparr>, saved))
                else
                  (case store_slice j (FolderToWatch v) savedError of
                     (ss, saved) \<Rightarrow> (v\<lparr>FolderToWatch := ss\<rparr>, saved)))))"

definition unmarshal :: "json \<Rightarrow> appConfig \<Rightarrow> appConfig \<times> json_error option" where
  "unmarshal j v =
     (case j of
        JObject members \<Rightarrow> foldl store_member (v, None) members
      | JNull \<Rightarrow> (v, None)
      | other \<Rightarrow> (v, Some (UnmarshalTypeError (kind j))))"

text \<open>\<open>jsonParser.Decode(&config)\<close>, with the value \<open>config\<close> has before the call: the value
  it has after, and the error. A syntax error leaves it untouched.\<close>

definition json_Decode :: "string \<Rightarrow> appConfig \<Rightarrow> appConfig \<times> json_error option" where
  "json_Decode input v =
     (case readValue BeginValue [] input of
        Inl err \<Rightarrow> (v, Some err)
      | Inr j \<Rightarrow> unmarshal j v)"

definition zero_appConfig :: appConfig where
  "zero_appConfig = \<lparr>FolderName = [], LastUpdate = [], FolderToWatch = None\<rparr>"

text \<open>The bytes a string literal holds as they are.\<close>

definition plain :: "char \<Rightarrow> bool" where
  "plain c = (c \<noteq> dquote \<and> c \<noteq> backslash \<and> \<not> byte c < 0x20)"

text \<open>The bytes the encoder writes with a two-character escape.\<close>

definition short_escape :: "char \<Rightarrow> bool" where
  "short_escape c =
     (c = backslash \<or> c = dquote \<or> c = CHR 0x08 \<or> c = CHR 0x0C \<or> c = CHR 0x0A \<or> c = CHR 0x0D
      \<or> c = CHR 0x09)"

text \<open>The JSON value of a slice of strings.\<close>

definition slice_json :: "string list option \<Rightarrow> json" where
  "slice_json s = (case s of None \<Rightarrow> JNull | Some ss \<Rightarrow> JArray (map JString ss))"


section \<open>The world the program runs in\<close>

text \<open>
  The program is a sequence of calls into the Drive service, the local file system, the
  file-system notifier, the standard input and the clock. These are not code of the
  program; the model gives each the state the program can observe and threads one record,
  the \<open>world\<close>, through every function. The global variables \<open>configApp\<close> and \<open>driveSrv\<close>
  are fields of that record.
\<close>

subsection \<open>The Drive service\<close>

text \<open>\<open>drive.File\<close>, with the fields the program reads or sets.\<close>

record drive_File =
  drive_Id :: string
  drive_Name :: string
  drive_MimeType :: string
  drive_Parents :: "string list"

text \<open>A file of the remote store: its metadata, whether it is in the trash, and its
  content.\<close>

record stored =
  meta :: drive_File
  explicitlyTrashed :: bool
  media :: string

definition folderMimeType :: string where
  "folderMimeType = ''application/vnd.google-apps.folder''"

text \<open>
  The two search queries the program sends. \<open>FoldersQuery\<close> is the text
  \<^verbatim>\<open>mimeType='application/vnd.google-apps.folder' and explicitlyTrashed=false\<close>;
  \<open>ChildQuery parentID fileName\<close> is the text that \<open>findUploadFileInDrive\<close> concatenates,
  \<^verbatim>\<open>'parentID' in parents and explicitlyTrashed=false and name='fileName'\<close>.
  The service is taken to read a query as the program means it (the query language's
  quoting of a name that itself holds a quote is not modelled), and to answer with every
  match in the order of the store; the program reads one answer and never asks for a
  further page.
\<close>

datatype query = FoldersQuery | ChildQuery string string

datatype request =
    FilesList query
  | FilesCreate drive_File "string option"
  | FilesUpdate string drive_File string

definition matches :: "query \<Rightarrow> stored \<Rightarrow> bool" where
  "matches q f =
     (case q of
        FoldersQuery \<Rightarrow> drive_MimeType (meta f) = folderMimeType \<and> \<not> explicitlyTrashed f
      | ChildQuery parentID fileName \<Rightarrow>
          parentID \<in> set (drive_Parents (meta f)) \<and> \<not> explicitlyTrashed f
          \<and> drive_Name (meta f) = fileName)"

text \<open>The \<open>Fields\<close> selector of each query: \<open>files(id, name, mimeType)\<close> for folders,
  \<open>files(id, name)\<close> for the files of a folder. A field not asked for comes back empty.\<close>

definition selected :: "query \<Rightarrow> drive_File \<Rightarrow> drive_File" where
  "selected q f =
     (case q of
        FoldersQuery \<Rightarrow> f\<lparr>drive_Parents := []\<rparr>
      | ChildQuery parentID fileName \<Rightarrow> f\<lparr>drive_MimeType := [], drive_Parents := []\<rparr>)"

text \<open>The identifier the service gives a new file: one that no file of the store has.\<close>

definition fresh_Id :: "stored list \<Rightarrow> string" where
  "fresh_Id fs = replicate (Suc (foldr max (map (\<lambda>f. length (drive_Id (meta f))) fs) 0)) CHR ''i''"

subsection \<open>The local machine\<close>

record FileInfo =
  info_Name :: string
  info_IsDir :: bool

text \<open>An open \<open>*os.File\<close>: the path it was opened with and the bytes \<open>Media\<close> reads.\<close>

record os_File =
  os_Name :: string
  os_Bytes :: string

text \<open>\<open>fsnotify.Event\<close>; \<open>Op\<close> is a bit mask (\<open>uint32\<close>).\<close>

record Event =
  event_Name :: string
  event_Op :: "32 word"

definition fsnotify_Write :: "32 word" where
  "fsnotify_Write = 2"

text \<open>What the watcher's two channels deliver.\<close>

datatype notification = OnEvents Event | OnErrors string

text \<open>How the process ends when it does not return: \<open>log.Fatal\<close> (exit status 1),
  a panic, or \<open>os.Exit(0)\<close>.\<close>

datatype exit = LogFatal | GoPanic | OsExit

text \<open>
  \<^item> \<open>remote\<close>: the files of the Drive store, in listing order;
  \<^item> \<open>requests\<close>: every request sent to the service, oldest first;
  \<^item> \<open>faults\<close>: the outcome of the requests to come: \<open>Some e\<close> makes the next request
    fail with the error \<open>e\<close>, \<open>None\<close> (or no entry left) lets the service answer;
  \<^item> \<open>disk\<close>: the regular files of the machine, by the path they are opened with;
    \<open>writable\<close>: whether \<open>ioutil.WriteFile\<close> succeeds;
  \<^item> \<open>dirs\<close>: the entries \<open>ioutil.ReadDir\<close> returns for a directory;
  \<^item> \<open>stdin\<close>: what each \<open>fmt.Scanln\<close> to come stores in its argument (the empty string
    for an empty line, and when the list is exhausted);
  \<^item> \<open>clock\<close>: what each \<open>time.Now().String()\<close> to come returns;
  \<^item> \<open>NewWatcher_err\<close>: the error of \<open>fsnotify.NewWatcher\<close>, if it has one;
  \<^item> \<open>AbsDir\<close>: \<open>filepath.Abs(filepath.Dir(p))\<close> with the error dropped, as both callers
    drop it (it depends on the working directory);
  \<^item> \<open>logged\<close>: the lines written through package \<open>log\<close> (what goes to standard
    output through \<open>fmt.Printf\<close> is not recorded);
  \<^item> \<open>reconciled\<close> and \<open>saves\<close> observe the run and influence nothing: the arguments
    \<open>(uploadFilePath, uploadFileName)\<close> of every call of \<open>processUpload\<close>, and the number of
    calls of \<open>saveConfigJSONFile\<close>.
\<close>

record world =
  remote :: "stored list"
  requests :: "request list"
  faults :: "string option list"
  disk :: "string \<rightharpoonup> string"
  writable :: bool
  dirs :: "string \<rightharpoonup> FileInfo list"
  stdin :: "string list"
  clock :: "string list"
  NewWatcher_err :: "string option"
  AbsDir :: "string \<Rightarrow> string"
  configApp :: appConfig
  logged :: "string list"
  reconciled :: "(string \<times> string) list"
  saves :: nat

definition next_fault :: "world \<Rightarrow> string option \<times> world" where
  "next_fault w = (case faults w of [] \<Rightarrow> (None, w) | f # fs \<Rightarrow> (f, w\<lparr>faults := fs\<rparr>))"

text \<open>\<open>driveSrv.Files.List().Q(q).Fields(...).Do()\<close>\<close>

definition Files_List :: "query \<Rightarrow> world \<Rightarrow> (string + drive_File list) \<times> world" where
  "Files_List q w =
     (case next_fault (w\<lparr>requests := requests w @ [FilesList q]\<rparr>) of
        (Some e, w1) \<Rightarrow> (Inl e, w1)
      | (None, w1) \<Rightarrow> (Inr (map (\<lambda>f. selected q (meta f)) (filter (matches q) (remote w1))), w1))"

text \<open>\<open>driveSrv.Files.Create(file).Media(body).Do()\<close> (a folder is created without
  \<open>Media\<close>): the new file goes last in the store and is returned with its identifier.\<close>

definition Files_Create :: "drive_File \<Rightarrow> string option \<Rightarrow> world \<Rightarrow> (string + drive_File) \<times> world" where
  "Files_Create file body w =
     (case next_fault (w\<lparr>requests := requests w @ [FilesCreate file body]\<rparr>) of
        (Some e, w1) \<Rightarrow> (Inl e, w1)
      | (None, w1) \<Rightarrow>
          (let created = file\<lparr>drive_Id := fresh_Id (remote w1)\<rparr> in
           (Inr created,
            w1\<lparr>remote := remote w1 @
                   [\<lparr>meta = created, explicitlyTrashed = False,
                     media = (case body of None \<Rightarrow> [] | Some b \<Rightarrow> b)\<rparr>]\<rparr>)))"

text \<open>\<open>driveSrv.Files.Update(fileId, file).Media(body).Do()\<close>: the file with that
  identifier gets the content, and the name when one is sent (an empty \<open>Name\<close> is left out
  of the request). An identifier the store does not have is an error.\<close>

definition patch :: "string \<Rightarrow> drive_File \<Rightarrow> string \<Rightarrow> stored \<Rightarrow> stored" where
  "patch fileId file body f =
     (if drive_Id (meta f) = fileId
      then f\<lparr>meta := (meta f)\<lparr>drive_Name :=
                 (if drive_Name file = [] then drive_Name (meta f) else drive_Name file)\<rparr>,
             media := body\<rparr>
      else f)"

definition Files_Update :: "string \<Rightarrow> drive_File \<Rightarrow> string \<Rightarrow> world \<Rightarrow> (string + unit) \<times> world" where
  "Files_Update fileId file body w =
     (case next_fault (w\<lparr>requests := requests w @ [FilesUpdate fileId file body]\<rparr>) of
        (Some e, w1) \<Rightarrow> (Inl e, w1)
      | (None, w1) \<Rightarrow>
          (if fileId \<in> set (map (\<lambda>f. drive_Id (meta f)) (remote w1))
           then (Inr (), w1\<lparr>remote := map (patch fileId file body) (remote w1)\<rparr>)
           else (Inl ''notFound'', w1)))"

text \<open>\<open>log.Println\<close> writes its operands with a space between them.\<close>

fun spaced :: "string list \<Rightarrow> string" where
  "spaced [] = []"
| "spaced [a] = a"
| "spaced (a # b # rest) = a @ '' '' @ spaced (b # rest)"

definition log_Println :: "string list \<Rightarrow> world \<Rightarrow> world" where
  "log_Println operands w = w\<lparr>logged := logged w @ [spaced operands]\<rparr>"

definition os_Open :: "string \<Rightarrow> world \<Rightarrow> string + os_File" where
  "os_Open name w =
     (case disk w name of
        None \<Rightarrow> Inl (''open '' @ name @ '': no such file or directory'')
      | Some bytes \<Rightarrow> Inr \<lparr>os_Name = name, os_Bytes = bytes\<rparr>)"

text \<open>\<open>ioutil.WriteFile\<close>; its only caller drops the error, so the result is the world.\<close>

definition ioutil_WriteFile :: "string \<Rightarrow> string \<Rightarrow> world \<Rightarrow> world" where
  "ioutil_WriteFile filename data w =
     (if writable w then w\<lparr>disk := (disk w)(filename \<mapsto> data)\<rparr> else w)"

definition ioutil_ReadDir :: "string \<Rightarrow> world \<Rightarrow> string + FileInfo list" where
  "ioutil_ReadDir dirname w =
     (case dirs w dirname of
        None \<Rightarrow> Inl (''open '' @ dirname @ '': no such file or directory'')
      | Some entries \<Rightarrow> Inr entries)"

definition fmt_Scanln :: "world \<Rightarrow> string \<times> world" where
  "fmt_Scanln w = (case stdin w of [] \<Rightarrow> ([], w) | l # ls \<Rightarrow> (l, w\<lparr>stdin := ls\<rparr>))"

definition time_Now :: "world \<Rightarrow> string \<times> world" where
  "time_Now w = (case clock w of [] \<Rightarrow> ([], w) | t # ts \<Rightarrow> (t, w\<lparr>clock := ts\<rparr>))"

text \<open>\<open>watcher.Add\<close> fails for a path that is neither a directory nor a file.\<close>

definition watcher_Add :: "string \<Rightarrow> world \<Rightarrow> string option" where
  "watcher_Add name w =
     (if dirs w name = None \<and> disk w name = None
      then Some (''no such file or directory'') else None)"

section \<open>The program\<close>

text \<open>
  Each function of \<open>EncryptBckDocs.go\<close> takes the world and returns it with its result. A
  function that can end the process returns \<open>Inl\<close> of the way it ended.
\<close>

subsection \<open>Queries of the remote store\<close>

text \<open>The two results of the Go function are a pair: the folder (\<open>None\<close> for \<open>nil\<close>) and
  the error (\<open>None\<close> for \<open>nil\<close>).\<close>

definition findHolderFolder :: "string \<Rightarrow> world \<Rightarrow> (drive_File option \<times> string option) \<times> world" where
  "findHolderFolder folderName w =
     (case Files_List FoldersQuery w of
        (Inl err, w1) \<Rightarrow> ((None, Some err), w1)
      | (Inr files, w1) \<Rightarrow>
          (if length files > 0 then
             (let folder = foldl (\<lambda>folder actualFile.
                                    if drive_Name actualFile = folderName then Some actualFile
                                    else folder) None files
              in if folder = None
                 then ((folder, Some (''No folder with name '' @ [dquote] @ folderName @ [dquote])), w1)
                 else ((folder, None), w1))
           else ((None, Some ''No folders''), w1)))"

definition findUploadFileInDrive :: "string \<Rightarrow> string \<Rightarrow> world \<Rightarrow> (drive_File option \<times> string option) \<times> world" where
  "findUploadFileInDrive fileName parentID w =
     (case Files_List (ChildQuery parentID fileName)
             (log_Println [''findUploadFileInDrive: '', fileName] w) of
        (Inl err, w1) \<Rightarrow> ((None, Some err), w1)
      | (Inr files, w1) \<Rightarrow> ((if length files > 0 then Some (files ! 0) else None, None), w1))"

subsection \<open>Saving and loading the configuration\<close>

definition saveConfigJSONFile :: "world \<Rightarrow> world" where
  "saveConfigJSONFile w =
     (let w1 = w\<lparr>saves := Suc (saves w)\<rparr> in
      case json_Marshal (configApp w1) of
        Inl err \<Rightarrow> log_Println [''ERROR! Cannot create config file: '' @ err @ '' ''] w1
      | Inr jsonContent \<Rightarrow> ioutil_WriteFile configFileName jsonContent w1)"

definition updateLastUpdateAppConfig :: "world \<Rightarrow> world" where
  "updateLastUpdateAppConfig w =
     (case time_Now w of
        (now, w1) \<Rightarrow> saveConfigJSONFile (w1\<lparr>configApp := (configApp w1)\<lparr>LastUpdate := now\<rparr>\<rparr>))"

text \<open>\<open>loadConfig\<close>: the configuration read, and the error (\<open>None\<close> for \<open>nil\<close>; \<open>Inl\<close> the
  error of \<open>os.Open\<close>, \<open>Inr\<close> the decoder's). The result \<open>config\<close> is the zero value when the
  decoder is called; with an error of the decoder it is returned as far as it was filled.\<close>

definition loadConfig :: "world \<Rightarrow> appConfig \<times> (string + json_error) option" where
  "loadConfig w =
     (case os_Open configFileName w of
        Inl err \<Rightarrow> (zero_appConfig, Some (Inl err))
      | Inr configFileContent \<Rightarrow>
          (case json_Decode (os_Bytes configFileContent) zero_appConfig of
             (config, Some err) \<Rightarrow> (config, Some (Inr err))
           | (config, None) \<Rightarrow> (config, None)))"

subsection \<open>Create, update, and the choice between them\<close>

definition updateFileInDrive :: "drive_File \<Rightarrow> os_File \<Rightarrow> world \<Rightarrow> (exit + unit) \<times> world" where
  "updateFileInDrive driveFileToUpload goFile w =
     (let driveFileToUpdate =
            \<lparr>drive_Id = [], drive_Name = filepath_Base (drive_Name driveFileToUpload),
             drive_MimeType = [], drive_Parents = []\<rparr>
      in case Files_Update (drive_Id driveFileToUpload) driveFileToUpdate (os_Bytes goFile) w of
           (Inl err, w1) \<Rightarrow> (Inl GoPanic, w1)
         | (Inr u, w1) \<Rightarrow> (Inr (), updateLastUpdateAppConfig w1))"

definition uploadNewFileToDrive :: "drive_File \<Rightarrow> string \<Rightarrow> string \<Rightarrow> os_File \<Rightarrow> world \<Rightarrow> (exit + unit) \<times> world" where
  "uploadNewFileToDrive folderFile fileToUploadName fileToUploadURL goFile w =
     (let parents = [drive_Id folderFile];
          driveFileToUpload =
            \<lparr>drive_Id = [], drive_Name = filepath_Base fileToUploadName,
             drive_MimeType = [], drive_Parents = parents\<rparr>
      in case Files_Create driveFileToUpload (Some (os_Bytes goFile)) w of
           (Inl err, w1) \<Rightarrow> (Inl GoPanic, w1)
         | (Inr created, w1) \<Rightarrow> (Inr (), updateLastUpdateAppConfig w1))"

definition processUpload :: "string \<Rightarrow> string \<Rightarrow> drive_File \<Rightarrow> world \<Rightarrow> (exit + unit) \<times> world" where
  "processUpload uploadFilePath uploadFileName parentFolder w =
     (let w0 = w\<lparr>reconciled := reconciled w @ [(uploadFilePath, uploadFileName)]\<rparr> in
      case os_Open uploadFilePath w0 of
        Inl err \<Rightarrow> (Inl LogFatal, log_Println [''error opening file: '' @ err] w0)
      | Inr goFile \<Rightarrow>
          (case findUploadFileInDrive uploadFileName (drive_Id parentFolder) w0 of
             ((driveFileToUpload, Some err), w1) \<Rightarrow>
               (Inl LogFatal,
                log_Println [''Error checking if file '' @ [dquote] @ uploadFileName @ [dquote]
                             @ '' already exists''] w1)
           | ((Some driveFileToUpload, None), w1) \<Rightarrow>
               updateFileInDrive driveFileToUpload goFile
                 (log_Println [''Update existing file to Drive''] w1)
           | ((None, None), w1) \<Rightarrow>
               uploadNewFileToDrive parentFolder uploadFileName uploadFilePath goFile
                 (log_Println [''Update new file to Drive''] w1)))"

subsection \<open>The sweep of the watched directories\<close>

text \<open>The inner loop of \<open>uploadActualFilesInWatchDir\<close>, over the entries of one directory;
  a process that ends inside \<open>processUpload\<close> ends the loop.\<close>

fun upload_entries :: "string \<Rightarrow> FileInfo list \<Rightarrow> drive_File \<Rightarrow> world \<Rightarrow> (exit + unit) \<times> world" where
  "upload_entries actualFolderToWatch [] parentFolder w = (Inr (), w)"
| "upload_entries actualFolderToWatch (actualFile # files) parentFolder w =
     (if \<not> info_IsDir actualFile then
        (let totalName = actualFolderToWatch @ ''/'' @ info_Name actualFile in
         if isNotAppFile totalName \<and> \<not> isNotHiddenFile totalName then
           (case processUpload totalName (info_Name actualFile) parentFolder w of
              (Inl e, w1) \<Rightarrow> (Inl e, w1)
            | (Inr u, w1) \<Rightarrow> upload_entries actualFolderToWatch files parentFolder w1)
         else upload_entries actualFolderToWatch files parentFolder w)
      else upload_entries actualFolderToWatch files parentFolder w)"

text \<open>The outer loop, over the watched directories.\<close>

fun upload_folders :: "string list \<Rightarrow> drive_File \<Rightarrow> world \<Rightarrow> (exit + unit) \<times> world" where
  "upload_folders [] parentFolder w = (Inr (), w)"
| "upload_folders (actualFolderToWatch # folders) parentFolder w =
     (let w1 = log_Println [''-uploadActualFilesInWatchDir: '', actualFolderToWatch] w in
      case ioutil_ReadDir actualFolderToWatch w1 of
        Inl err \<Rightarrow>
          upload_folders folders parentFolder
            (log_Println [''Error uploadActualFilesInWatchDir: '', err] w1)
      | Inr files \<Rightarrow>
          (case upload_entries actualFolderToWatch files parentFolder w1 of
             (Inl e, w2) \<Rightarrow> (Inl e, w2)
           | (Inr u, w2) \<Rightarrow> upload_folders folders parentFolder w2))"

definition uploadActualFilesInWatchDir :: "drive_File \<Rightarrow> world \<Rightarrow> (exit + unit) \<times> world" where
  "uploadActualFilesInWatchDir parentFolder w =
     upload_folders (elements (FolderToWatch (configApp w))) parentFolder w"

subsection \<open>The watch loop\<close>

text \<open>The body of the goroutine's \<open>select\<close> for one event. The two slice expressions panic
  when their bounds are out of range.\<close>

definition on_event :: "Event \<Rightarrow> drive_File \<Rightarrow> world \<Rightarrow> (exit + unit) \<times> world" where
  "on_event event parentFolder w =
     (if event_Op event AND fsnotify_Write = fsnotify_Write then
        (if isNotAppFile (event_Name event) \<and> \<not> isNotHiddenFile (event_Name event) then
           (let lastPos = LastIndex (event_Name event) [PathSeparator] in
            case slice (event_Name event) 0 lastPos of
              None \<Rightarrow> (Inl GoPanic, w)
            | Some actualFileToWatch \<Rightarrow>
                (case slice (event_Name event) (lastPos + 1) (int (length (event_Name event))) of
                   None \<Rightarrow> (Inl GoPanic, w)
                 | Some onlyFileName \<Rightarrow>
                     processUpload (event_Name event) onlyFileName parentFolder
                       (log_Println [''ToReplace: '', actualFileToWatch @ [PathSeparator],
                                     '' - name: '', event_Name event, ''  onlyFileName: '',
                                     onlyFileName] w)))
         else (Inr (), w))
      else (Inr (), w))"

text \<open>The goroutine's loop, over what the two channels deliver while the process lives.
  When nothing more is delivered the goroutine waits; the result is then \<open>Inr ()\<close>.\<close>

fun watch_loop :: "notification list \<Rightarrow> drive_File \<Rightarrow> world \<Rightarrow> (exit + unit) \<times> world" where
  "watch_loop [] parentFolder w = (Inr (), w)"
| "watch_loop (OnEvents event # rest) parentFolder w =
     (case on_event event parentFolder w of
        (Inl e, w1) \<Rightarrow> (Inl e, w1)
      | (Inr u, w1) \<Rightarrow> watch_loop rest parentFolder w1)"
| "watch_loop (OnErrors err # rest) parentFolder w =
     watch_loop rest parentFolder (log_Println [''error:'', err] w)"

text \<open>The loop that registers the watched directories.\<close>

fun add_watches :: "string list \<Rightarrow> world \<Rightarrow> (exit + unit) \<times> world" where
  "add_watches [] w = (Inr (), w)"
| "add_watches (actualFileToWatch # rest) w =
     (let w1 = log_Println [''add to watch: '', actualFileToWatch] w in
      case watcher_Add actualFileToWatch w1 of
        Some err \<Rightarrow> (Inl LogFatal, log_Println [err] w1)
      | None \<Rightarrow> add_watches rest w1)"

text \<open>
  \<open>runWatcher\<close> never returns: the main goroutine waits on a channel nobody sends on. The
  model takes the notifications delivered during the life of the process as an argument;
  events come from registered directories only, so the registrations go first. \<open>Inr ()\<close>
  is the process still waiting after the last of them.
\<close>

definition runWatcher :: "drive_File \<Rightarrow> notification list \<Rightarrow> world \<Rightarrow> (exit + unit) \<times> world" where
  "runWatcher parentFolder delivered w =
     (case NewWatcher_err w of
        Some err \<Rightarrow> (Inl LogFatal, log_Println [err] w)
      | None \<Rightarrow>
          (case add_watches (elements (FolderToWatch (configApp w))) w of
             (Inl e, w1) \<Rightarrow> (Inl e, w1)
           | (Inr u, w1) \<Rightarrow> watch_loop delivered parentFolder w1))"

subsection \<open>The menu's actions\<close>

definition createFolderInDrive :: "string \<Rightarrow> world \<Rightarrow> (drive_File option \<times> string option) \<times> world" where
  "createFolderInDrive folderName w =
     (let fileMeta = \<lparr>drive_Id = [], drive_Name = folderName,
                      drive_MimeType = folderMimeType, drive_Parents = []\<rparr>
      in case Files_Create fileMeta None
                (log_Println [''Error finding '' @ folderName @ '' : <nil>''] w) of
           (Inl err, w1) \<Rightarrow> ((None, Some err), w1)
         | (Inr folderFile, w1) \<Rightarrow> ((Some folderFile, None), w1))"

definition createConfig :: "world \<Rightarrow> appConfig \<times> world" where
  "createConfig w =
     (case fmt_Scanln w of
        (inputFolderName, w1) \<Rightarrow>
          (let folderName = (if inputFolderName \<noteq> [] then inputFolderName else ''EncryptBckDoc'');
               w2 = saveConfigJSONFile
                      (w1\<lparr>configApp := \<lparr>FolderName = folderName, LastUpdate = [],
                                         FolderToWatch = None\<rparr>\<rparr>)
           in (configApp w2, w2)))"

definition configFolderToWatch :: "world \<Rightarrow> world" where
  "configFolderToWatch w =
     (if length (elements (FolderToWatch (configApp w))) = 0
         \<or> elements (FolderToWatch (configApp w)) ! 0 = [] then
        (case fmt_Scanln w of
           (input, w1) \<Rightarrow>
             (let folderToWatch = (if input = [] then ''.'' else input);
                  folderToWatch = AbsDir w1 folderToWatch
              in saveConfigJSONFile
                   (w1\<lparr>configApp := (configApp w1)\<lparr>FolderToWatch := Some [folderToWatch]\<rparr>\<rparr>)))
      else w)"

definition addFolderToWatch :: "world \<Rightarrow> world" where
  "addFolderToWatch w =
     (if length (elements (FolderToWatch (configApp w))) = 0
      then log_Println [''Lauch config option first!!''] w
      else
        (case fmt_Scanln w of
           (input, w1) \<Rightarrow>
             (let folderToWatch = (if input = [] then ''.'' else input);
                  folderToWatch = AbsDir w1 (folderToWatch @ ''/'');
                  isFolderInConfig =
                    foldl (\<lambda>isFolderInConfig actualFoldertoWatch.
                             if actualFoldertoWatch = folderToWatch then True
                             else isFolderInConfig) False
                          (elements (FolderToWatch (configApp w1)))
              in if isFolderInConfig
                 then log_Println [''ERROR!! - The folder ir already in config!''] w1
                 else saveConfigJSONFile
                        (w1\<lparr>configApp := (configApp w1)\<lparr>FolderToWatch :=
                               Some (elements (FolderToWatch (configApp w1)) @ [folderToWatch])\<rparr>\<rparr>))))"

text \<open>\<open>executeApp\<close>, with the notifications the watcher will deliver.\<close>

definition executeApp :: "notification list \<Rightarrow> world \<Rightarrow> (exit + unit) \<times> world" where
  "executeApp delivered w =
     (let resolved =
            (case findHolderFolder (FolderName (configApp w)) w of
               ((folderFile, Some err), w1) \<Rightarrow>
                 (case createFolderInDrive (FolderName (configApp w1)) w1 of
                    ((folderFile, Some err), w2) \<Rightarrow> (Inl GoPanic, w2)
                  | ((folderFile, None), w2) \<Rightarrow> (Inr folderFile, w2))
             | ((folderFile, None), w1) \<Rightarrow> (Inr folderFile, w1))
      in case resolved of
           (Inl e, w2) \<Rightarrow> (Inl e, w2)
         | (Inr None, w2) \<Rightarrow> (Inl GoPanic, w2)
         | (Inr (Some folderFile), w2) \<Rightarrow>
             (case uploadActualFilesInWatchDir folderFile (configFolderToWatch w2) of
                (Inl e, w3) \<Rightarrow> (Inl e, w3)
              | (Inr u, w3) \<Rightarrow> runWatcher folderFile delivered w3))"

text \<open>\<open>runOption\<close>. Its calls of \<open>showAppMenu\<close>, which calls \<open>runOption\<close> again, are the
  argument \<open>menu\<close>.\<close>

definition runOption ::
  "(world \<Rightarrow> (exit + unit) \<times> world) \<Rightarrow> notification list \<Rightarrow> string \<Rightarrow> bool \<Rightarrow> world
   \<Rightarrow> (exit + unit) \<times> world" where
  "runOption menu delivered userOption backToMenu w =
     (if userOption = ''e'' then executeApp delivered w
      else if userOption = ''x'' then (Inl OsExit, w)
      else if userOption = ''c'' then
        (let w1 = configFolderToWatch (snd (createConfig w)) in
         if backToMenu then menu w1 else (Inr (), w1))
      else if userOption = ''a'' then
        (let w1 = addFolderToWatch w in
         if backToMenu then menu w1 else (Inr (), w1))
      else if userOption = ''s'' then
        (if backToMenu then menu w else (Inr (), w))
      else (Inl LogFatal, log_Println [''Wrong option: '' @ userOption] w))"

section \<open>Observing a run\<close>

text \<open>The requests a step sends are those the later world holds beyond the earlier one.\<close>

definition issued :: "world \<Rightarrow> world \<Rightarrow> request list" where
  "issued w w' = drop (length (requests w)) (requests w')"

text \<open>The calls of \<open>processUpload\<close> a step makes, likewise.\<close>

definition calls :: "world \<Rightarrow> world \<Rightarrow> (string \<times> string) list" where
  "calls w w' = drop (length (reconciled w)) (reconciled w')"

text \<open>The condition under which the sweep and the watch loop call \<open>processUpload\<close>.\<close>

definition eligible :: "string \<Rightarrow> bool" where
  "eligible p = (isNotAppFile p \<and> \<not> isNotHiddenFile p)"

fun is_create :: "request \<Rightarrow> bool" where
  "is_create (FilesCreate file body) = True"
| "is_create r = False"

fun is_update :: "request \<Rightarrow> bool" where
  "is_update (FilesUpdate fileId file body) = True"
| "is_update r = False"

text \<open>The requests to come are answered, as far as the first \<open>n\<close> of them.\<close>

definition answered :: "nat \<Rightarrow> world \<Rightarrow> bool" where
  "answered n w = list_all (\<lambda>e. e = None) (take n (faults w))"

text \<open>The files the store lists under a folder by a name.\<close>

definition children :: "string \<Rightarrow> string \<Rightarrow> world \<Rightarrow> stored list" where
  "children parentID fileName w = filter (matches (ChildQuery parentID fileName)) (remote w)"

text \<open>The folders the service lists, as \<open>findHolderFolder\<close> receives them.\<close>

definition folder_listing :: "world \<Rightarrow> drive_File list" where
  "folder_listing w =
     map (\<lambda>f. selected FoldersQuery (meta f)) (filter (matches FoldersQuery) (remote w))"

subsection \<open>Worlds to run the program in\<close>

definition docs_folder :: drive_File where
  "docs_folder = \<lparr>drive_Id = ''F1'', drive_Name = ''EncryptBckDoc'',
                   drive_MimeType = folderMimeType, drive_Parents = []\<rparr>"

text \<open>A machine with one watched directory \<open>/docs\<close> holding \<open>a.txt\<close>, and a store that
  holds the destination folder only.\<close>

definition first_run :: world where
  "first_run =
     \<lparr>remote = [\<lparr>meta = docs_folder, explicitlyTrashed = False, media = []\<rparr>],
      requests = [], faults = [],
      disk = [''/docs/a.txt'' \<mapsto> ''hello''], writable = True,
      dirs = [''/docs'' \<mapsto> [\<lparr>info_Name = ''a.txt'', info_IsDir = False\<rparr>]],
      stdin = [''/docs''], clock = [''2017-03-01 10:00:00''], NewWatcher_err = None,
      AbsDir = (\<lambda>p. ''/docs''),
      configApp = \<lparr>FolderName = ''EncryptBckDoc'', LastUpdate = [],
                   FolderToWatch = Some [''/docs'']\<rparr>,
      logged = [], reconciled = [], saves = 0\<rparr>"

text \<open>The same machine when the store already holds \<open>a.txt\<close> under the folder.\<close>

definition later_run :: world where
  "later_run =
     first_run\<lparr>remote := remote first_run @
       [\<lparr>meta = \<lparr>drive_Id = ''A1'', drive_Name = ''a.txt'', drive_MimeType = ''text/plain'',
                 drive_Parents = [''F1'']\<rparr>,
         explicitlyTrashed = False, media = ''old''\<rparr>]\<rparr>"

text \<open>The same machine when the file under the folder is named \<open>dir/a.txt\<close> (the name of a
  Drive file may hold a separator).\<close>

definition slashed :: world where
  "slashed =
     first_run\<lparr>remote := remote first_run @
       [\<lparr>meta = \<lparr>drive_Id = ''A1'', drive_Name = ''dir/a.txt'', drive_MimeType = ''text/plain'',
                 drive_Parents = [''F1'']\<rparr>,
         explicitlyTrashed = False, media = ''old''\<rparr>]\<rparr>"

text \<open>A directory that also holds files the filters are there for.\<close>

definition cluttered :: world where
  "cluttered = first_run\<lparr>dirs := [''/docs'' \<mapsto>
       [\<lparr>info_Name = ''.profile'', info_IsDir = False\<rparr>,
        \<lparr>info_Name = ''a.go'', info_IsDir = False\<rparr>,
        \<lparr>info_Name = ''a.txt'', info_IsDir = False\<rparr>,
        \<lparr>info_Name = ''config.json'', info_IsDir = False\<rparr>,
        \<lparr>info_Name = ''sub'', info_IsDir = True\<rparr>]]\<rparr>"

text \<open>A store in which three folders bear the destination name, the last of them in the
  trash.\<close>

definition two_folders :: world where
  "two_folders = first_run\<lparr>remote :=
     [\<lparr>meta = docs_folder, explicitlyTrashed = False, media = []\<rparr>,
      \<lparr>meta = \<lparr>drive_Id = ''F2'', drive_Name = ''Other'', drive_MimeType = folderMimeType,
                drive_Parents = []\<rparr>, explicitlyTrashed = False, media = []\<rparr>,
      \<lparr>meta = \<lparr>drive_Id = ''F3'', drive_Name = ''EncryptBckDoc'', drive_MimeType = folderMimeType,
                drive_Parents = []\<rparr>, explicitlyTrashed = False, media = []\<rparr>,
      \<lparr>meta = \<lparr>drive_Id = ''F4'', drive_Name = ''EncryptBckDoc'', drive_MimeType = folderMimeType,
                drive_Parents = []\<rparr>, explicitlyTrashed = True, media = []\<rparr>]\<rparr>"

text \<open>A watched path that is not valid UTF-8, as a working directory with such a name
  gives \<open>filepath.Abs\<close>.\<close>

definition odd_path :: world where
  "odd_path = first_run\<lparr>configApp :=
     \<lparr>FolderName = ''EncryptBckDoc'', LastUpdate = [],
      FolderToWatch = Some [''/srv/'' @ [CHR 0xFF]]\<rparr>\<rparr>"

section \<open>Searching a string\<close>

lemma LastIndex_from_none: "(LastIndex_from s sub k = -1) = (\<forall>i\<le>k. \<not> occurs_at s sub i)"
proof (induction k)
  case 0 then show ?case by simp
next
  case (Suc k)
  show ?case using Suc by (auto simp: le_Suc_eq)
qed

lemma LastIndex_from_found:
  "occurs_at s sub j \<Longrightarrow> j \<le> k \<Longrightarrow> \<forall>i. j < i \<and> i \<le> k \<longrightarrow> \<not> occurs_at s sub i \<Longrightarrow>
   LastIndex_from s sub k = int j"
proof (induction k)
  case 0 then show ?case by simp
next
  case (Suc k)
  show ?case
  proof (cases "j = Suc k")
    case True with Suc.prems show ?thesis by simp
  next
    case False
    with Suc.prems have "j \<le> k" by simp
    moreover have "\<not> occurs_at s sub (Suc k)" using Suc.prems False by auto
    ultimately show ?thesis using Suc by auto
  qed
qed

lemma occurs_at_length: "occurs_at s sub i \<Longrightarrow> length sub \<le> length s - i"
proof -
  assume "occurs_at s sub i"
  then have "length (take (length sub) (drop i s)) = length sub" by (simp add: occurs_at_def)
  then show ?thesis by simp
qed

lemma occurs_at_suffix: "suffix n s \<Longrightarrow> occurs_at s n (length s - length n)"
  by (auto simp: suffix_def occurs_at_def)

lemma LastIndex_suffix:
  assumes "suffix n s"
  shows "LastIndex s n = int (length s) - int (length n)"
proof -
  have len: "length n \<le> length s" using assms by (rule suffix_length_le)
  have "LastIndex_from s n (length s) = int (length s - length n)"
  proof (rule LastIndex_from_found)
    show "occurs_at s n (length s - length n)" using assms by (rule occurs_at_suffix)
    show "length s - length n \<le> length s" by simp
    show "\<forall>i. length s - length n < i \<and> i \<le> length s \<longrightarrow> \<not> occurs_at s n i"
      using occurs_at_length [of s n] by fastforce
  qed
  then show ?thesis using len by (simp add: LastIndex_def of_nat_diff)
qed

lemma LastIndex_short:
  assumes "length s < length n"
  shows "LastIndex s n = -1"
proof -
  have "\<forall>i\<le>length s. \<not> occurs_at s n i"
    using occurs_at_length [of s n] assms by fastforce
  then show ?thesis by (simp add: LastIndex_def LastIndex_from_none)
qed

lemma LastIndex_from_range: "LastIndex_from s sub k = -1 \<or> (0 \<le> LastIndex_from s sub k \<and> LastIndex_from s sub k \<le> int k \<and> occurs_at s sub (nat (LastIndex_from s sub k)))"
proof (induction k)
  case 0 then show ?case by simp
next
  case (Suc k)
  have "nat (1 + int k) = Suc k" by simp
  with Suc show ?case by auto
qed

lemma occurs_at_single: "occurs_at s [c] i = (i < length s \<and> s ! i = c)"
proof (cases "i < length s")
  case True
  then have "drop i s = s ! i # drop (Suc i) s" by (simp add: Cons_nth_drop_Suc)
  then show ?thesis using True by (simp add: occurs_at_def)
next
  case False
  then show ?thesis by (simp add: occurs_at_def)
qed

lemma Index_from_sublist: "(Index_from s sub i \<noteq> -1) = sublist sub s"
proof (induction s arbitrary: i)
  case Nil then show ?case by simp
next
  case (Cons c cs)
  have pre: "(take (length sub) (c # cs) = sub) = prefix sub (c # cs)"
    by (metis prefix_def append_eq_conv_conj append_take_drop_id)
  show ?case using Cons [of "Suc i"]
    by (auto simp: pre sublist_Cons_right)
qed

section \<open>The requests a reconciliation sends\<close>

lemma requests_saveConfigJSONFile: "requests (saveConfigJSONFile w) = requests w"
  by (simp add: saveConfigJSONFile_def json_Marshal_def ioutil_WriteFile_def Let_def)

lemma requests_updateLastUpdateAppConfig: "requests (updateLastUpdateAppConfig w) = requests w"
  by (simp add: updateLastUpdateAppConfig_def time_Now_def requests_saveConfigJSONFile split: list.splits)

lemma requests_log_Println: "requests (log_Println xs w) = requests w"
  by (simp add: log_Println_def)

lemma requests_next_fault: "requests (snd (next_fault w)) = requests w"
  by (simp add: next_fault_def split: list.splits)

lemma Files_List_answered:
  "fst (next_fault w) = None \<Longrightarrow>
   Files_List q w = (Inr (map (\<lambda>f. selected q (meta f)) (filter (matches q) (remote w))),
                     snd (next_fault (w\<lparr>requests := requests w @ [FilesList q]\<rparr>)))"
  by (auto simp: Files_List_def next_fault_def split: list.splits option.splits)

lemma requests_Files_Create:
  "Files_Create f b w = (r, w1) \<Longrightarrow> requests w1 = requests w @ [FilesCreate f b]"
  by (auto simp: Files_Create_def next_fault_def Let_def split: list.splits option.splits)

lemma requests_Files_Update:
  "Files_Update i f b w = (r, w1) \<Longrightarrow> requests w1 = requests w @ [FilesUpdate i f b]"
  by (auto simp: Files_Update_def next_fault_def Let_def split: list.splits option.splits if_splits)

lemma requests_updateFileInDrive:
  "requests (snd (updateFileInDrive f g w)) =
   requests w @ [FilesUpdate (drive_Id f) \<lparr>drive_Id = [], drive_Name = filepath_Base (drive_Name f),
             drive_MimeType = [], drive_Parents = []\<rparr> (os_Bytes g)]"
  by (auto simp: updateFileInDrive_def Let_def requests_updateLastUpdateAppConfig
      split: prod.splits sum.splits dest: requests_Files_Update)

lemma requests_uploadNewFileToDrive:
  "requests (snd (uploadNewFileToDrive d n u g w)) =
   requests w @ [FilesCreate \<lparr>drive_Id = [], drive_Name = filepath_Base n,
             drive_MimeType = [], drive_Parents = [drive_Id d]\<rparr> (Some (os_Bytes g))]"
  by (auto simp: uploadNewFileToDrive_def Let_def requests_updateLastUpdateAppConfig
      split: prod.splits sum.splits dest: requests_Files_Create)

text \<open>
  \<^bold>\<open>C1.\<close> A call of \<open>processUpload\<close> that opens its file and whose query is answered sends the
  query and one more request. When the store lists no file of that name under the folder,
  the second request is a create (with the base name, the folder as parent and the bytes
  of the file), and there is no update. When it lists some, the second request is an
  update of the first file listed, and there is no create.
\<close>

theorem processUpload_create_or_update:
  assumes opened: "disk w uploadFilePath = Some bytes"
      and listed: "answered 1 w"
      and found: "found = children (drive_Id parentFolder) uploadFileName w"
      and sent: "sent = issued w (snd (processUpload uploadFilePath uploadFileName parentFolder w))"
  shows "(found = [] \<longrightarrow>
            sent = [FilesList (ChildQuery (drive_Id parentFolder) uploadFileName),
                    FilesCreate \<lparr>drive_Id = [], drive_Name = filepath_Base uploadFileName,
                                 drive_MimeType = [], drive_Parents = [drive_Id parentFolder]\<rparr>
                                (Some bytes)]
            \<and> length (filter is_create sent) = 1 \<and> filter is_update sent = [])
       \<and> (found \<noteq> [] \<longrightarrow>
            sent = [FilesList (ChildQuery (drive_Id parentFolder) uploadFileName),
                    FilesUpdate (drive_Id (meta (hd found)))
                                \<lparr>drive_Id = [], drive_Name = filepath_Base (drive_Name (meta (hd found))),
                                 drive_MimeType = [], drive_Parents = []\<rparr> bytes]
            \<and> length (filter is_update sent) = 1 \<and> filter is_create sent = [])"
proof -
  let ?q = "ChildQuery (drive_Id parentFolder) uploadFileName"
  let ?w0 = "log_Println [''findUploadFileInDrive: '', uploadFileName]
               (w\<lparr>reconciled := reconciled w @ [(uploadFilePath, uploadFileName)]\<rparr>)"
  have nf: "fst (next_fault ?w0) = None"
    using listed by (auto simp: answered_def next_fault_def log_Println_def split: list.splits)
  have rem: "remote ?w0 = remote w" by (simp add: log_Println_def)
  have lst: "Files_List ?q ?w0 =
        (Inr (map (\<lambda>f. selected ?q (meta f)) found),
         snd (next_fault (?w0\<lparr>requests := requests ?w0 @ [FilesList ?q]\<rparr>)))"
    using Files_List_answered [OF nf, of ?q] by (simp add: rem found children_def)
  have op: "os_Open uploadFilePath (w\<lparr>reconciled := reconciled w @ [(uploadFilePath, uploadFileName)]\<rparr>)
        = Inr \<lparr>os_Name = uploadFilePath, os_Bytes = bytes\<rparr>"
    using opened by (simp add: os_Open_def)
  show ?thesis
  proof (cases found)
    case Nil
    then show ?thesis
      by (simp add: sent issued_def processUpload_def Let_def op findUploadFileInDrive_def lst
          requests_uploadNewFileToDrive requests_log_Println requests_next_fault)
  next
    case (Cons f rest)
    have sel: "selected ?q (meta f) = \<lparr>drive_Id = drive_Id (meta f), drive_Name = drive_Name (meta f), drive_MimeType = [], drive_Parents = []\<rparr>"
      by (simp add: selected_def)
    show ?thesis
      by (simp add: Cons sent issued_def processUpload_def Let_def op findUploadFileInDrive_def lst
          requests_updateFileInDrive sel requests_log_Println requests_next_fault)
  qed
qed

text \<open>Both branches, run: the first upload of \<open>/docs/a.txt\<close>, and an upload when the
  store holds \<open>a.txt\<close> already.\<close>

theorem processUpload_create_or_update_witness:
  "disk first_run ''/docs/a.txt'' = Some ''hello'' \<and> answered 1 first_run
   \<and> children ''F1'' ''a.txt'' first_run = []
   \<and> issued first_run (snd (processUpload ''/docs/a.txt'' ''a.txt'' docs_folder first_run)) =
       [FilesList (ChildQuery ''F1'' ''a.txt''),
        FilesCreate \<lparr>drive_Id = [], drive_Name = ''a.txt'', drive_MimeType = [],
                     drive_Parents = [''F1'']\<rparr> (Some ''hello'')]
   \<and> disk later_run ''/docs/a.txt'' = Some ''hello'' \<and> answered 1 later_run
   \<and> children ''F1'' ''a.txt'' later_run \<noteq> []
   \<and> issued later_run (snd (processUpload ''/docs/a.txt'' ''a.txt'' docs_folder later_run)) =
       [FilesList (ChildQuery ''F1'' ''a.txt''),
        FilesUpdate ''A1'' \<lparr>drive_Id = [], drive_Name = ''a.txt'', drive_MimeType = [],
                     drive_Parents = []\<rparr> ''hello'']"
proof -
  have base: "filepath_Base ''a.txt'' = ''a.txt''"
    by (simp add: filepath_Base_def PathSeparator_def)
  have d1: "disk first_run ''/docs/a.txt'' = Some ''hello''" by (simp add: first_run_def)
  have a1: "answered 1 first_run" by (simp add: first_run_def answered_def)
  have c1: "children ''F1'' ''a.txt'' first_run = []"
    by (simp add: children_def first_run_def matches_def docs_folder_def)
  have d2: "disk later_run ''/docs/a.txt'' = Some ''hello''" by (simp add: first_run_def later_run_def)
  have a2: "answered 1 later_run" by (simp add: first_run_def later_run_def answered_def)
  have c2: "children ''F1'' ''a.txt'' later_run =
       [\<lparr>meta = \<lparr>drive_Id = ''A1'', drive_Name = ''a.txt'', drive_MimeType = ''text/plain'',
                 drive_Parents = [''F1'']\<rparr>, explicitlyTrashed = False, media = ''old''\<rparr>]"
    by (simp add: children_def first_run_def later_run_def matches_def docs_folder_def)
  have id: "drive_Id docs_folder = ''F1''" by (simp add: docs_folder_def)
  show ?thesis
    using processUpload_create_or_update [OF d1 a1 refl refl, of docs_folder "''a.txt''"]
          processUpload_create_or_update [OF d2 a2 refl refl, of docs_folder "''a.txt''"]
          a1 a2
    by (simp add: id c1 c2 d1 d2 base)
qed

section \<open>The files the sweep and the watch loop pass on\<close>

lemma isNotAppFile_loop_hit:
  "name \<in> set names \<Longrightarrow> int (length s) - int (length name) = LastIndex s name \<Longrightarrow>
   \<not> isNotAppFile_loop names s"
  by (induction names) (auto simp: Let_def)

lemma isNotHiddenFile_sublist: "isNotHiddenFile p = sublist ''/.'' p"
  by (simp add: isNotHiddenFile_def Index_def Index_from_sublist)

lemma reconciled_log_Println: "reconciled (log_Println xs w) = reconciled w"
  by (simp add: log_Println_def)

lemma reconciled_saveConfigJSONFile: "reconciled (saveConfigJSONFile w) = reconciled w"
  by (simp add: saveConfigJSONFile_def json_Marshal_def ioutil_WriteFile_def Let_def)

lemma reconciled_updateLastUpdateAppConfig: "reconciled (updateLastUpdateAppConfig w) = reconciled w"
  by (simp add: updateLastUpdateAppConfig_def time_Now_def reconciled_saveConfigJSONFile split: list.splits)

lemma reconciled_Files_List: "Files_List q w = (r, w1) \<Longrightarrow> reconciled w1 = reconciled w"
  by (auto simp: Files_List_def next_fault_def split: list.splits option.splits)

lemma reconciled_Files_Create: "Files_Create f b w = (r, w1) \<Longrightarrow> reconciled w1 = reconciled w"
  by (auto simp: Files_Create_def next_fault_def Let_def split: list.splits option.splits)

lemma reconciled_Files_Update: "Files_Update i f b w = (r, w1) \<Longrightarrow> reconciled w1 = reconciled w"
  by (auto simp: Files_Update_def next_fault_def Let_def split: list.splits option.splits if_splits)

lemma reconciled_updateFileInDrive: "reconciled (snd (updateFileInDrive f g w)) = reconciled w"
  by (auto simp: updateFileInDrive_def Let_def reconciled_updateLastUpdateAppConfig
      split: prod.splits sum.splits dest: reconciled_Files_Update)

lemma reconciled_uploadNewFileToDrive: "reconciled (snd (uploadNewFileToDrive d n u g w)) = reconciled w"
  by (auto simp: uploadNewFileToDrive_def Let_def reconciled_updateLastUpdateAppConfig
      split: prod.splits sum.splits dest: reconciled_Files_Create)

lemma reconciled_findUploadFileInDrive:
  "findUploadFileInDrive n i w = (r, w1) \<Longrightarrow> reconciled w1 = reconciled w"
  by (auto simp: findUploadFileInDrive_def reconciled_log_Println split: prod.splits sum.splits
      dest!: reconciled_Files_List)

lemma reconciled_processUpload:
  "reconciled (snd (processUpload p n d w)) = reconciled w @ [(p, n)]"
  by (auto simp: processUpload_def Let_def reconciled_log_Println reconciled_updateFileInDrive
        reconciled_uploadNewFileToDrive
      split: prod.splits sum.splits option.splits dest!: reconciled_findUploadFileInDrive)

lemma upload_entries_calls:
  "\<exists>cs. reconciled (snd (upload_entries dir files d w)) = reconciled w @ cs
        \<and> (\<forall>c\<in>set cs. eligible (fst c))"
proof (induction files arbitrary: w)
  case Nil
  then show ?case by simp
next
  case (Cons f files)
  let ?p = "dir @ ''/'' @ info_Name f"
  show ?case
  proof (cases "\<not> info_IsDir f \<and> eligible ?p")
    case False
    then show ?thesis using Cons [of w] by (auto simp: Let_def eligible_def)
  next
    case True
    obtain r w1 where pu: "processUpload ?p (info_Name f) d w = (r, w1)" by force
    have w1: "reconciled w1 = reconciled w @ [(?p, info_Name f)]"
      using reconciled_processUpload [of ?p "info_Name f" d w] pu by simp
    show ?thesis
    proof (cases r)
      case (Inl e)
      then show ?thesis using True pu w1 by (simp add: Let_def eligible_def)
    next
      case (Inr u)
      obtain cs where "reconciled (snd (upload_entries dir files d w1)) = reconciled w1 @ cs"
        "\<forall>c\<in>set cs. eligible (fst c)" using Cons [of w1] by blast
      then show ?thesis using True pu w1 Inr by (simp add: Let_def eligible_def)
    qed
  qed
qed

lemma upload_folders_calls:
  "\<exists>cs. reconciled (snd (upload_folders dirs' d w)) = reconciled w @ cs
        \<and> (\<forall>c\<in>set cs. eligible (fst c))"
proof (induction dirs' arbitrary: w)
  case Nil
  then show ?case by simp
next
  case (Cons dir rest)
  let ?w1 = "log_Println [''-uploadActualFilesInWatchDir: '', dir] w"
  show ?case
  proof (cases "ioutil_ReadDir dir ?w1")
    case (Inl err)
    then show ?thesis
      using Cons [of "log_Println [''Error uploadActualFilesInWatchDir: '', err] ?w1"]
      by (simp add: Let_def reconciled_log_Println)
  next
    case (Inr files)
    obtain r w2 where ue: "upload_entries dir files d ?w1 = (r, w2)" by force
    obtain cs where cs: "reconciled w2 = reconciled w @ cs" "\<forall>c\<in>set cs. eligible (fst c)"
      using upload_entries_calls [of dir files d ?w1] ue by (auto simp: reconciled_log_Println)
    show ?thesis
    proof (cases r)
      case (Inl e)
      then show ?thesis using Inr ue cs by (simp add: Let_def)
    next
      case (Inr u)
      obtain cs' where "reconciled (snd (upload_folders rest d w2)) = reconciled w2 @ cs'"
        "\<forall>c\<in>set cs'. eligible (fst c)" using Cons [of w2] by blast
      then show ?thesis using \<open>ioutil_ReadDir dir ?w1 = Inr files\<close> ue cs Inr
        by (auto simp: Let_def)
    qed
  qed
qed

lemma on_event_calls:
  "\<exists>cs. reconciled (snd (on_event ev d w)) = reconciled w @ cs
        \<and> (\<forall>c\<in>set cs. eligible (fst c))"
  by (auto simp: on_event_def Let_def reconciled_processUpload reconciled_log_Println eligible_def
      split: option.splits)

lemma watch_loop_calls:
  "\<exists>cs. reconciled (snd (watch_loop ns d w)) = reconciled w @ cs
        \<and> (\<forall>c\<in>set cs. eligible (fst c))"
proof (induction ns d w rule: watch_loop.induct)
  case (1 d w)
  then show ?case by simp
next
  case (2 ev rest d w)
  obtain r w1 where oe: "on_event ev d w = (r, w1)" by force
  obtain cs where cs: "reconciled w1 = reconciled w @ cs" "\<forall>c\<in>set cs. eligible (fst c)"
    using on_event_calls [of ev d w] oe by auto
  show ?case
  proof (cases r)
    case (Inl e)
    then show ?thesis using oe cs by simp
  next
    case (Inr u)
    obtain cs' where "reconciled (snd (watch_loop rest d w1)) = reconciled w1 @ cs'"
      "\<forall>c\<in>set cs'. eligible (fst c)" using 2 [OF oe [symmetric] Inr] by blast
    then show ?thesis using oe cs Inr by auto
  qed
next
  case (3 err rest d w)
  then show ?case by (simp add: reconciled_log_Println)
qed

lemma reconciled_add_watches: "reconciled (snd (add_watches ps w)) = reconciled w"
  by (induction ps arbitrary: w) (auto simp: Let_def reconciled_log_Println split: option.splits)

lemma runWatcher_calls:
  "\<exists>cs. reconciled (snd (runWatcher d ns w)) = reconciled w @ cs
        \<and> (\<forall>c\<in>set cs. eligible (fst c))"
proof (cases "NewWatcher_err w")
  case (Some err)
  then show ?thesis by (simp add: runWatcher_def reconciled_log_Println)
next
  case None
  obtain r w1 where aw: "add_watches (elements (FolderToWatch (configApp w))) w = (r, w1)" by force
  have w1: "reconciled w1 = reconciled w"
    using reconciled_add_watches [of "elements (FolderToWatch (configApp w))" w] aw by simp
  show ?thesis
    using None aw w1 watch_loop_calls [of ns d w1]
    by (cases r) (auto simp: runWatcher_def)
qed

lemma calls_sweep: "\<forall>c\<in>set (calls w (snd (uploadActualFilesInWatchDir d w))). eligible (fst c)"
  using upload_folders_calls [of "elements (FolderToWatch (configApp w))" d w]
  by (auto simp: calls_def uploadActualFilesInWatchDir_def)

lemma calls_watch: "\<forall>c\<in>set (calls w (snd (runWatcher d ns w))). eligible (fst c)"
  using runWatcher_calls [of d ns w] by (auto simp: calls_def)

lemma app_file_not_eligible: "name \<in> set appFiles \<Longrightarrow> suffix name p \<Longrightarrow> \<not> eligible p"
  using isNotAppFile_loop_hit [of name appFiles p] LastIndex_suffix [of name p]
  by (simp add: eligible_def isNotAppFile_def)

text \<open>
  \<^bold>\<open>C5.\<close> A path that ends in one of the names of \<open>appFiles\<close>, or that contains \<open>"/."\<close>, is
  not among the paths \<open>processUpload\<close> is called with, neither in the sweep of the watched
  directories nor in the watch loop, whatever the directories hold and whatever the
  watcher delivers.
\<close>

theorem filtered_paths_not_reconciled:
  assumes "(\<exists>name\<in>set appFiles. suffix name path) \<or> sublist ''/.'' path"
  shows "path \<notin> fst ` set (calls w (snd (uploadActualFilesInWatchDir parentFolder w)))
       \<and> path \<notin> fst ` set (calls w (snd (runWatcher parentFolder delivered w)))"
proof -
  have "\<not> eligible path"
    using assms app_file_not_eligible by (auto simp: eligible_def isNotHiddenFile_sublist)
  then show ?thesis
    using calls_sweep [of w parentFolder] calls_watch [of w parentFolder delivered] by auto
qed

text \<open>The sweep of a directory that holds \<open>config.json\<close> and \<open>.profile\<close>, and events for
  both.\<close>

theorem filtered_paths_not_reconciled_witness:
  "(\<exists>name\<in>set appFiles. suffix name ''/docs/config.json'') \<and> sublist ''/.'' ''/docs/.profile''
   \<and> ''/docs/config.json'' \<notin> fst ` set (calls cluttered (snd (uploadActualFilesInWatchDir docs_folder cluttered)))
   \<and> ''/docs/.profile'' \<notin> fst ` set (calls cluttered (snd (uploadActualFilesInWatchDir docs_folder cluttered)))
   \<and> ''/docs/config.json'' \<notin> fst ` set (calls cluttered (snd (runWatcher docs_folder
          [OnEvents \<lparr>event_Name = ''/docs/config.json'', event_Op = fsnotify_Write\<rparr>] cluttered)))
   \<and> ''/docs/.profile'' \<notin> fst ` set (calls cluttered (snd (runWatcher docs_folder
          [OnEvents \<lparr>event_Name = ''/docs/.profile'', event_Op = fsnotify_Write\<rparr>] cluttered)))"
proof -
  have app: "\<exists>name\<in>set appFiles. suffix name ''/docs/config.json''"
    by (simp add: appFiles_def configFileName_def suffix_to_prefix)
  have hidden: "sublist ''/.'' ''/docs/.profile''"
    by (simp add: sublist_code)
  show ?thesis
    using app hidden
      filtered_paths_not_reconciled [of "''/docs/config.json''" cluttered docs_folder
        "[OnEvents \<lparr>event_Name = ''/docs/config.json'', event_Op = fsnotify_Write\<rparr>]"]
      filtered_paths_not_reconciled [of "''/docs/.profile''" cluttered docs_folder
        "[OnEvents \<lparr>event_Name = ''/docs/.profile'', event_Op = fsnotify_Write\<rparr>]"]
    by blast
qed

text \<open>
  \<^bold>\<open>C9.\<close> A file name one character shorter than a name \<open>n\<close> of \<open>appFiles\<close> cannot contain \<open>n\<close>;
  \<open>strings.LastIndex\<close> is then \<open>-1\<close>, which is also the difference of the two lengths, so
  \<open>isNotAppFile\<close> is false of it and neither the sweep nor the watch loop calls
  \<open>processUpload\<close> with it.
\<close>

theorem short_name_taken_for_app_file:
  assumes "name \<in> set appFiles" and "int (length s) = int (length name) - 1"
  shows "\<not> sublist name s \<and> LastIndex s name = -1 \<and> \<not> isNotAppFile s
       \<and> s \<notin> fst ` set (calls w (snd (uploadActualFilesInWatchDir parentFolder w)))
       \<and> s \<notin> fst ` set (calls w (snd (runWatcher parentFolder delivered w)))"
proof -
  have short: "length s < length name" using assms(2) by linarith
  have nosub: "\<not> sublist name s"
    using short sublist_length_le [of name s] by auto
  have li: "LastIndex s name = -1" using short by (rule LastIndex_short)
  have napp: "\<not> isNotAppFile s"
    using isNotAppFile_loop_hit [of name appFiles s] assms li by (simp add: isNotAppFile_def)
  then have "\<not> eligible s" by (simp add: eligible_def)
  then show ?thesis
    using nosub li napp calls_sweep [of w parentFolder] calls_watch [of w parentFolder delivered]
    by auto
qed

text \<open>\<open>/docs/a.go\<close> has ten characters, \<open>config.json\<close> eleven.\<close>

theorem short_name_taken_for_app_file_witness:
  "configFileName \<in> set appFiles \<and> int (length ''/docs/a.go'') = int (length configFileName) - 1
   \<and> \<not> isNotAppFile ''/docs/a.go''
   \<and> ''/docs/a.go'' \<notin> fst ` set (calls cluttered (snd (uploadActualFilesInWatchDir docs_folder cluttered)))
   \<and> ''/docs/a.go'' \<notin> fst ` set (calls cluttered (snd (runWatcher docs_folder
          [OnEvents \<lparr>event_Name = ''/docs/a.go'', event_Op = fsnotify_Write\<rparr>] cluttered)))"
proof -
  have mem: "configFileName \<in> set appFiles" by (simp add: appFiles_def)
  have len: "int (length ''/docs/a.go'') = int (length configFileName) - 1"
    by (simp add: configFileName_def)
  show ?thesis
    using mem len
      short_name_taken_for_app_file [OF mem len, of cluttered docs_folder
        "[OnEvents \<lparr>event_Name = ''/docs/a.go'', event_Op = fsnotify_Write\<rparr>]"]
    by blast
qed

section \<open>The watch loop's slice expressions\<close>

lemma LastIndex_from_last:
  "LastIndex_from s sub k < int j \<Longrightarrow> j \<le> k \<Longrightarrow> \<not> occurs_at s sub j"
proof (induction k)
  case 0
  then show ?case by (auto split: if_splits)
next
  case (Suc k)
  show ?case
  proof (cases "j = Suc k")
    case True
    then show ?thesis using Suc.prems by (auto split: if_splits)
  next
    case False
    then show ?thesis using Suc by (auto split: if_splits)
  qed
qed

lemma LastIndex_separator: "(LastIndex s [c] = -1) = (c \<notin> set s)"
proof
  assume "LastIndex s [c] = -1"
  then have "\<forall>i\<le>length s. \<not> (i < length s \<and> s ! i = c)"
    by (simp add: LastIndex_def LastIndex_from_none occurs_at_single)
  then have "\<forall>i<length s. s ! i \<noteq> c"
    using less_imp_le by blast
  then show "c \<notin> set s" by (auto simp: in_set_conv_nth)
next
  assume "c \<notin> set s"
  then show "LastIndex s [c] = -1"
    by (auto simp: LastIndex_def LastIndex_from_none occurs_at_single)
qed

lemma LastIndex_split:
  assumes "c \<in> set s"
  shows "\<exists>i. LastIndex s [c] = int i \<and> i < length s \<and> s ! i = c \<and> c \<notin> set (drop (Suc i) s)"
proof -
  let ?k = "LastIndex_from s [c] (length s)"
  have ne: "?k \<noteq> -1" using assms LastIndex_separator [of s c] by (simp add: LastIndex_def)
  then have r: "0 \<le> ?k" "occurs_at s [c] (nat ?k)"
    using LastIndex_from_range [of s "[c]" "length s"] by auto
  define i where "i = nat ?k"
  have ki: "?k = int i" using r(1) by (simp add: i_def)
  have occ: "i < length s" "s ! i = c" using r(2) by (simp_all add: occurs_at_single i_def)
  have later: "s ! j \<noteq> c" if "i < j" "j < length s" for j
    using LastIndex_from_last [of s "[c]" "length s" j] ki that
    by (simp add: occurs_at_single)
  have "c \<notin> set (drop (Suc i) s)"
  proof
    assume "c \<in> set (drop (Suc i) s)"
    then obtain m where "m < length (drop (Suc i) s)" "drop (Suc i) s ! m = c"
      by (auto simp: in_set_conv_nth)
    then have "Suc i + m < length s" "s ! (Suc i + m) = c" by auto
    then show False using later [of "Suc i + m"] by simp
  qed
  then show ?thesis using ki occ by (auto simp: LastIndex_def)
qed

text \<open>
  \<^bold>\<open>C10.\<close> For a write event whose path passes both filters: if the path has no separator,
  \<open>strings.LastIndex\<close> is \<open>-1\<close>, the slice expression \<open>event.Name[0:lastPos]\<close> is out of
  range, and the handler (and with it the loop) ends in a panic without having touched the
  world; if the path has a separator, both slice expressions are in range and the handler
  is the call of \<open>processUpload\<close> with the part after the last separator.
\<close>

theorem on_event_panics_without_separator:
  assumes op: "event_Op event AND fsnotify_Write = fsnotify_Write"
      and passes: "isNotAppFile (event_Name event) \<and> \<not> isNotHiddenFile (event_Name event)"
  shows "(PathSeparator \<notin> set (event_Name event) \<longrightarrow>
            LastIndex (event_Name event) [PathSeparator] = -1
            \<and> slice (event_Name event) 0 (-1) = None
            \<and> on_event event parentFolder w = (Inl GoPanic, w)
            \<and> watch_loop (OnEvents event # rest) parentFolder w = (Inl GoPanic, w))
       \<and> (PathSeparator \<in> set (event_Name event) \<longrightarrow>
            (\<exists>dir base.
               event_Name event = dir @ [PathSeparator] @ base \<and> PathSeparator \<notin> set base
               \<and> on_event event parentFolder w =
                   processUpload (event_Name event) base parentFolder
                     (log_Println [''ToReplace: '', dir @ [PathSeparator], '' - name: '',
                                   event_Name event, ''  onlyFileName: '', base] w)))"
proof (intro conjI impI)
  assume no: "PathSeparator \<notin> set (event_Name event)"
  then show li: "LastIndex (event_Name event) [PathSeparator] = -1"
    by (simp add: LastIndex_separator)
  show sl: "slice (event_Name event) 0 (-1) = None" by (simp add: slice_def)
  show oe: "on_event event parentFolder w = (Inl GoPanic, w)"
    using op passes li sl by (simp add: on_event_def)
  show "watch_loop (OnEvents event # rest) parentFolder w = (Inl GoPanic, w)"
    using oe by simp
next
  let ?n = "event_Name event"
  assume "PathSeparator \<in> set ?n"
  then obtain i where i: "LastIndex ?n [PathSeparator] = int i" "i < length ?n"
      "?n ! i = PathSeparator" "PathSeparator \<notin> set (drop (Suc i) ?n)"
    using LastIndex_split by blast
  have s1: "slice ?n 0 (int i) = Some (take i ?n)"
    using i(2) by (simp add: slice_def)
  have s2: "slice ?n (int i + 1) (int (length ?n)) = Some (drop (Suc i) ?n)"
    using i(2) by (simp add: slice_def nat_add_distrib)
  have parts: "?n = take i ?n @ [PathSeparator] @ drop (Suc i) ?n"
    using i(2,3) by (metis append_Cons append_Nil id_take_nth_drop)
  have "on_event event parentFolder w =
          processUpload ?n (drop (Suc i) ?n) parentFolder
            (log_Println [''ToReplace: '', take i ?n @ [PathSeparator], '' - name: '',
                          ?n, ''  onlyFileName: '', drop (Suc i) ?n] w)"
    using op passes i(1) s1 s2 by (simp add: on_event_def)
  then show "\<exists>dir base.
               ?n = dir @ [PathSeparator] @ base \<and> PathSeparator \<notin> set base
               \<and> on_event event parentFolder w =
                   processUpload ?n base parentFolder
                     (log_Println [''ToReplace: '', dir @ [PathSeparator], '' - name: '',
                                   ?n, ''  onlyFileName: '', base] w)"
    using parts i(4) by blast
qed

text \<open>The events \<open>a.txt\<close> and \<open>/docs/a.txt\<close>.\<close>

theorem on_event_panics_without_separator_witness:
  "event_Op \<lparr>event_Name = ''a.txt'', event_Op = fsnotify_Write\<rparr> AND fsnotify_Write = fsnotify_Write
   \<and> isNotAppFile ''a.txt'' \<and> \<not> isNotHiddenFile ''a.txt'' \<and> PathSeparator \<notin> set ''a.txt''
   \<and> on_event \<lparr>event_Name = ''a.txt'', event_Op = fsnotify_Write\<rparr> docs_folder first_run
       = (Inl GoPanic, first_run)
   \<and> PathSeparator \<in> set ''/docs/a.txt'' \<and> isNotAppFile ''/docs/a.txt''
   \<and> \<not> isNotHiddenFile ''/docs/a.txt''
   \<and> (\<exists>dir base. ''/docs/a.txt'' = dir @ [PathSeparator] @ base
        \<and> on_event \<lparr>event_Name = ''/docs/a.txt'', event_Op = fsnotify_Write\<rparr> docs_folder first_run =
            processUpload ''/docs/a.txt'' base docs_folder
              (log_Println [''ToReplace: '', dir @ [PathSeparator], '' - name: '',
                            ''/docs/a.txt'', ''  onlyFileName: '', base] first_run))"
proof -
  have p1: "isNotAppFile ''a.txt'' \<and> \<not> isNotHiddenFile ''a.txt''"
    by (simp add: isNotAppFile_def appFiles_def configFileName_def clientSecretFileName_def
        LastIndex_def occurs_at_def Let_def isNotHiddenFile_def Index_def)
  have p2: "isNotAppFile ''/docs/a.txt'' \<and> \<not> isNotHiddenFile ''/docs/a.txt''"
    by (simp add: isNotAppFile_def appFiles_def configFileName_def clientSecretFileName_def
        LastIndex_def occurs_at_def Let_def isNotHiddenFile_def Index_def)
  have s1: "PathSeparator \<notin> set ''a.txt''" by (simp add: PathSeparator_def)
  have s2: "PathSeparator \<in> set ''/docs/a.txt''" by (simp add: PathSeparator_def)
  show ?thesis
    using p1 p2 s1 s2
      on_event_panics_without_separator
        [of "\<lparr>event_Name = ''a.txt'', event_Op = fsnotify_Write\<rparr>" docs_folder first_run "[]"]
      on_event_panics_without_separator
        [of "\<lparr>event_Name = ''/docs/a.txt'', event_Op = fsnotify_Write\<rparr>" docs_folder first_run "[]"]
    by simp blast
qed

section \<open>Finding the destination folder\<close>

lemma foldl_last_match:
  "foldl (\<lambda>folder actualFile. if P actualFile then Some actualFile else folder) acc files =
   (if filter P files = [] then acc else Some (last (filter P files)))"
  by (induction files arbitrary: acc) auto

text \<open>
  \<^bold>\<open>C3.\<close> When the listing of the folders is answered and holds at least one folder of the
  name asked for, \<open>findHolderFolder\<close> returns the last such folder of the listing and no
  error, however many there are.
\<close>

theorem findHolderFolder_last_match:
  assumes listed: "answered 1 w"
      and some: "\<exists>f\<in>set (folder_listing w). drive_Name f = folderName"
  shows "fst (findHolderFolder folderName w) =
           (Some (last (filter (\<lambda>f. drive_Name f = folderName) (folder_listing w))), None)"
proof -
  have nf: "fst (next_fault w) = None"
    using listed by (auto simp: answered_def next_fault_def split: list.splits)
  have lst: "Files_List FoldersQuery w =
        (Inr (folder_listing w),
         snd (next_fault (w\<lparr>requests := requests w @ [FilesList FoldersQuery]\<rparr>)))"
    using Files_List_answered [OF nf, of FoldersQuery] by (simp add: folder_listing_def)
  have ne: "filter (\<lambda>f. drive_Name f = folderName) (folder_listing w) \<noteq> []"
    using some by (auto simp: filter_empty_conv)
  then have "folder_listing w \<noteq> []" by auto
  then show ?thesis
    using ne by (simp add: findHolderFolder_def lst foldl_last_match Let_def)
qed

text \<open>Two folders of the listing bear the name; the later one, \<open>F3\<close>, is returned.\<close>

theorem findHolderFolder_last_match_witness:
  "answered 1 two_folders
   \<and> (\<exists>f\<in>set (folder_listing two_folders). drive_Name f = ''EncryptBckDoc'')
   \<and> length (filter (\<lambda>f. drive_Name f = ''EncryptBckDoc'') (folder_listing two_folders)) = 2
   \<and> fst (findHolderFolder ''EncryptBckDoc'' two_folders) =
        (Some \<lparr>drive_Id = ''F3'', drive_Name = ''EncryptBckDoc'', drive_MimeType = folderMimeType,
               drive_Parents = []\<rparr>, None)"
proof -
  have l: "folder_listing two_folders =
      [docs_folder,
       \<lparr>drive_Id = ''F2'', drive_Name = ''Other'', drive_MimeType = folderMimeType, drive_Parents = []\<rparr>,
       \<lparr>drive_Id = ''F3'', drive_Name = ''EncryptBckDoc'', drive_MimeType = folderMimeType, drive_Parents = []\<rparr>]"
    by (simp add: folder_listing_def two_folders_def first_run_def matches_def selected_def docs_folder_def)
  have a: "answered 1 two_folders" by (simp add: answered_def two_folders_def first_run_def)
  have e: "\<exists>f\<in>set (folder_listing two_folders). drive_Name f = ''EncryptBckDoc''"
    by (simp add: l docs_folder_def)
  show ?thesis
    using findHolderFolder_last_match [OF a e] a e by (simp add: l docs_folder_def)
qed

section \<open>Adding a watched path\<close>

lemma foldl_member:
  "foldl (\<lambda>isFolderInConfig actualFoldertoWatch.
            if actualFoldertoWatch = folderToWatch then True else isFolderInConfig) acc folders =
   (acc \<or> folderToWatch \<in> set folders)"
  by (induction folders arbitrary: acc) auto

text \<open>
  \<^bold>\<open>C6.\<close> When the path typed in, made absolute, is already among the watched paths,
  \<open>addFolderToWatch\<close> reads the line, logs the error and does nothing else: the
  configuration, the file on disk and the number of saves are as before. The function
  returns, and \<open>runOption\<close> goes on to the menu (or returns) as after any other addition.
\<close>

theorem addFolderToWatch_duplicate:
  assumes typed: "fst (fmt_Scanln w) = input"
      and present: "AbsDir w ((if input = [] then ''.'' else input) @ ''/'')
                      \<in> set (elements (FolderToWatch (configApp w)))"
  shows "addFolderToWatch w =
           log_Println [''ERROR!! - The folder ir already in config!''] (snd (fmt_Scanln w))
       \<and> configApp (addFolderToWatch w) = configApp w
       \<and> saves (addFolderToWatch w) = saves w
       \<and> disk (addFolderToWatch w) = disk w
       \<and> logged (addFolderToWatch w) = logged w @ [''ERROR!! - The folder ir already in config!'']
       \<and> runOption menu delivered ''a'' False w = (Inr (), addFolderToWatch w)
       \<and> runOption menu delivered ''a'' True w = menu (addFolderToWatch w)"
proof -
  obtain w1 where sc: "fmt_Scanln w = (input, w1)" using typed by (cases "fmt_Scanln w") simp
  have same: "AbsDir w1 = AbsDir w" "configApp w1 = configApp w" "saves w1 = saves w"
    "disk w1 = disk w" "logged w1 = logged w"
    using sc by (auto simp: fmt_Scanln_def split: list.splits)
  have nonempty: "length (elements (FolderToWatch (configApp w))) \<noteq> 0" using present by auto
  have eq: "addFolderToWatch w = log_Println [''ERROR!! - The folder ir already in config!''] w1"
    using present nonempty by (simp add: addFolderToWatch_def sc same Let_def foldl_member)
  show ?thesis
    using eq sc same by (simp add: log_Println_def runOption_def)
qed

text \<open>Adding \<open>/docs\<close> when \<open>/docs\<close> is watched.\<close>

theorem addFolderToWatch_duplicate_witness:
  "fst (fmt_Scanln first_run) = ''/docs''
   \<and> AbsDir first_run (''/docs'' @ ''/'') \<in> set (elements (FolderToWatch (configApp first_run)))
   \<and> FolderToWatch (configApp (addFolderToWatch first_run)) = Some [''/docs'']
   \<and> saves (addFolderToWatch first_run) = 0
   \<and> logged (addFolderToWatch first_run) = [''ERROR!! - The folder ir already in config!'']
   \<and> runOption (\<lambda>w. (Inr (), w)) [] ''a'' False first_run = (Inr (), addFolderToWatch first_run)"
proof -
  have t: "fst (fmt_Scanln first_run) = ''/docs''" by (simp add: fmt_Scanln_def first_run_def)
  have p: "AbsDir first_run ((if ''/docs'' = [] then ''.'' else ''/docs'') @ ''/'')
             \<in> set (elements (FolderToWatch (configApp first_run)))"
    by (simp add: first_run_def elements_def)
  show ?thesis
    using addFolderToWatch_duplicate [OF t p, of "\<lambda>w. (Inr (), w)" "[]"] t
    by (simp add: first_run_def fmt_Scanln_def log_Println_def elements_def)
qed

section \<open>Creating the destination folder\<close>

lemma findHolderFolder_no_match:
  assumes listed: "answered 1 w"
      and none: "\<forall>f\<in>set (folder_listing w). drive_Name f \<noteq> folderName"
  shows "\<exists>err. findHolderFolder folderName w =
           ((None, Some err), snd (next_fault (w\<lparr>requests := requests w @ [FilesList FoldersQuery]\<rparr>)))"
proof -
  have nf: "fst (next_fault w) = None"
    using listed by (auto simp: answered_def next_fault_def split: list.splits)
  have lst: "Files_List FoldersQuery w =
        (Inr (folder_listing w),
         snd (next_fault (w\<lparr>requests := requests w @ [FilesList FoldersQuery]\<rparr>)))"
    using Files_List_answered [OF nf, of FoldersQuery] by (simp add: folder_listing_def)
  have "filter (\<lambda>f. drive_Name f = folderName) (folder_listing w) = []"
    using none by (auto simp: filter_empty_conv)
  then show ?thesis
    by (simp add: findHolderFolder_def lst foldl_last_match Let_def)
qed

text \<open>
  \<^bold>\<open>C4.\<close> When the listing of the folders is answered and holds no folder of the configured
  name, \<open>findHolderFolder\<close> returns an error and \<open>executeApp\<close> calls \<open>createFolderInDrive\<close>:
  the two together send the listing and one create request, for a folder of that name.
  When the create request is answered, its result is the new folder, the store holds it,
  and \<open>executeApp\<close> goes on (asking for a watched path if there is none, sweeping, then
  watching) with that folder. When it is not answered, \<open>executeApp\<close> panics.
\<close>

theorem executeApp_creates_folder:
  assumes listed: "answered 1 w"
      and none: "\<forall>f\<in>set (folder_listing w). drive_Name f \<noteq> FolderName (configApp w)"
      and fileMeta: "fileMeta = \<lparr>drive_Id = [], drive_Name = FolderName (configApp w),
                                 drive_MimeType = folderMimeType, drive_Parents = []\<rparr>"
      and created: "created = fileMeta\<lparr>drive_Id := fresh_Id (remote w)\<rparr>"
      and resolution: "resolution = createFolderInDrive (FolderName (configApp w))
                                      (snd (findHolderFolder (FolderName (configApp w)) w))"
  shows "snd (fst (findHolderFolder (FolderName (configApp w)) w)) \<noteq> None
       \<and> issued w (snd resolution) = [FilesList FoldersQuery, FilesCreate fileMeta None]
       \<and> length (filter is_create (issued w (snd resolution))) = 1
       \<and> (answered 2 w \<longrightarrow>
            fst resolution = (Some created, None)
            \<and> remote (snd resolution) =
                remote w @ [\<lparr>meta = created, explicitlyTrashed = False, media = []\<rparr>]
            \<and> executeApp delivered w =
                (case uploadActualFilesInWatchDir created (configFolderToWatch (snd resolution)) of
                   (Inl e, w3) \<Rightarrow> (Inl e, w3)
                 | (Inr u, w3) \<Rightarrow> runWatcher created delivered w3))
       \<and> (\<not> answered 2 w \<longrightarrow> executeApp delivered w = (Inl GoPanic, snd resolution))"
proof -
  let ?name = "FolderName (configApp w)"
  define w1 where "w1 = snd (next_fault (w\<lparr>requests := requests w @ [FilesList FoldersQuery]\<rparr>))"
  obtain err where fh: "findHolderFolder ?name w = ((None, Some err), w1)"
    using findHolderFolder_no_match [OF listed none] unfolding w1_def by blast
  have w1: "configApp w1 = configApp w" "remote w1 = remote w"
    "requests w1 = requests w @ [FilesList FoldersQuery]" "faults w1 = tl (faults w)"
    by (simp_all add: w1_def next_fault_def split: list.splits)
  have res: "resolution = createFolderInDrive ?name w1" using resolution fh by simp
  show ?thesis
  proof (cases "answered 2 w")
    case True
    then have nf2: "tl (faults w) = [] \<or> hd (tl (faults w)) = None"
      using listed by (cases "faults w"; cases "tl (faults w)") (auto simp: answered_def numeral_2_eq_2)
    have "\<exists>w2. createFolderInDrive ?name w1 = ((Some created, None), w2)
        \<and> requests w2 = requests w @ [FilesList FoldersQuery, FilesCreate fileMeta None]
        \<and> remote w2 = remote w @ [\<lparr>meta = created, explicitlyTrashed = False, media = []\<rparr>]"
      using nf2
      by (cases "tl (faults w)")
         (auto simp: createFolderInDrive_def Files_Create_def Let_def w1 fileMeta created
            log_Println_def next_fault_def split: list.splits)
    then obtain w2 where cr: "createFolderInDrive ?name w1 = ((Some created, None), w2)"
        "requests w2 = requests w @ [FilesList FoldersQuery, FilesCreate fileMeta None]"
        "remote w2 = remote w @ [\<lparr>meta = created, explicitlyTrashed = False, media = []\<rparr>]"
      by blast
    show ?thesis
      using True by (simp add: res cr fh issued_def executeApp_def w1)
  next
    case False
    then obtain e rest where nf2: "tl (faults w) = Some e # rest"
      using listed
      by (cases "faults w"; cases "tl (faults w)"; cases "hd (tl (faults w))")
         (auto simp: answered_def numeral_2_eq_2)
    have "\<exists>w2. createFolderInDrive ?name w1 = ((None, Some e), w2)
        \<and> requests w2 = requests w @ [FilesList FoldersQuery, FilesCreate fileMeta None]"
      using nf2
      by (simp add: createFolderInDrive_def Files_Create_def Let_def w1 fileMeta
            log_Println_def next_fault_def)
    then obtain w2 where cr: "createFolderInDrive ?name w1 = ((None, Some e), w2)"
        "requests w2 = requests w @ [FilesList FoldersQuery, FilesCreate fileMeta None]"
      by blast
    show ?thesis
      using False by (simp add: res cr fh issued_def executeApp_def w1)
  qed
qed

text \<open>An empty store: the folder is created and gets the identifier \<open>i\<close>.\<close>

theorem executeApp_creates_folder_witness:
  "answered 2 (first_run\<lparr>remote := []\<rparr>)
   \<and> folder_listing (first_run\<lparr>remote := []\<rparr>) = []
   \<and> issued (first_run\<lparr>remote := []\<rparr>)
        (snd (createFolderInDrive ''EncryptBckDoc''
               (snd (findHolderFolder ''EncryptBckDoc'' (first_run\<lparr>remote := []\<rparr>))))) =
       [FilesList FoldersQuery,
        FilesCreate \<lparr>drive_Id = [], drive_Name = ''EncryptBckDoc'',
                     drive_MimeType = folderMimeType, drive_Parents = []\<rparr> None]
   \<and> fst (createFolderInDrive ''EncryptBckDoc''
               (snd (findHolderFolder ''EncryptBckDoc'' (first_run\<lparr>remote := []\<rparr>)))) =
       (Some \<lparr>drive_Id = ''i'', drive_Name = ''EncryptBckDoc'',
              drive_MimeType = folderMimeType, drive_Parents = []\<rparr>, None)"
proof -
  let ?w = "first_run\<lparr>remote := []\<rparr>"
  have a1: "answered 1 ?w" and a2: "answered 2 ?w" by (simp_all add: answered_def first_run_def)
  have l: "folder_listing ?w = []" by (simp add: folder_listing_def)
  have n: "\<forall>f\<in>set (folder_listing ?w). drive_Name f \<noteq> FolderName (configApp ?w)"
    by (simp add: l)
  have c: "FolderName (configApp first_run) = ''EncryptBckDoc''" by (simp add: first_run_def)
  show ?thesis
    using executeApp_creates_folder [OF a1 n refl refl refl, of "[]"] a2 l
    by (simp add: c fresh_Id_def)
qed

section \<open>Reconciling twice\<close>

lemma next_fault_answered:
  "answered (Suc k) w \<Longrightarrow> next_fault w = (None, w\<lparr>faults := tl (faults w)\<rparr>)"
  by (cases "faults w") (auto simp: answered_def next_fault_def)

lemma answered_tl: "answered (Suc k) w \<Longrightarrow> faults w' = tl (faults w) \<Longrightarrow> answered k w'"
  by (cases "faults w") (auto simp: answered_def)

lemma answered_faults: "faults w' = faults w \<Longrightarrow> answered k w' = answered k w"
  by (simp add: answered_def)

lemma Files_List_result:
  "answered (Suc k) w \<Longrightarrow>
   Files_List q w = (Inr (map (\<lambda>f. selected q (meta f)) (filter (matches q) (remote w))),
                     w\<lparr>requests := requests w @ [FilesList q], faults := tl (faults w)\<rparr>)"
  using next_fault_answered [of k "w\<lparr>requests := requests w @ [FilesList q]\<rparr>"]
  by (simp add: Files_List_def answered_def)


lemma Files_Update_result:
  "answered (Suc k) w \<Longrightarrow> fileId \<in> set (map (\<lambda>f. drive_Id (meta f)) (remote w)) \<Longrightarrow>
   Files_Update fileId file body w =
     (Inr (),
      w\<lparr>requests := requests w @ [FilesUpdate fileId file body], faults := tl (faults w),
        remote := map (patch fileId file body) (remote w)\<rparr>)"
  using next_fault_answered [of k "w\<lparr>requests := requests w @ [FilesUpdate fileId file body]\<rparr>"]
  by (simp add: Files_Update_def answered_def)

lemma updateLastUpdateAppConfig_frame:
  "remote (updateLastUpdateAppConfig w) = remote w"
  "faults (updateLastUpdateAppConfig w) = faults w"
  "disk w p = Some b \<Longrightarrow> \<exists>b'. disk (updateLastUpdateAppConfig w) p = Some b'"
  by (auto simp: updateLastUpdateAppConfig_def time_Now_def saveConfigJSONFile_def
      json_Marshal_def ioutil_WriteFile_def Let_def split: list.splits)




text \<open>The update path, when both requests are answered.\<close>

lemma processUpload_updates:
  assumes opened: "disk w p = Some bytes"
      and ans: "answered (Suc (Suc k)) w"
      and some: "children (drive_Id d) n w = f # rest"
  shows "\<exists>w1. processUpload p n d w = (Inr (), w1)
        \<and> remote w1 = map (patch (drive_Id (meta f))
                                \<lparr>drive_Id = [], drive_Name = filepath_Base n,
                                 drive_MimeType = [], drive_Parents = []\<rparr> bytes) (remote w)
        \<and> faults w1 = tl (tl (faults w))
        \<and> requests w1 = requests w @
             [FilesList (ChildQuery (drive_Id d) n),
              FilesUpdate (drive_Id (meta f))
                \<lparr>drive_Id = [], drive_Name = filepath_Base n,
                 drive_MimeType = [], drive_Parents = []\<rparr> bytes]
        \<and> (\<exists>b'. disk w1 p = Some b')"
proof -
  let ?q = "ChildQuery (drive_Id d) n"
  have "f \<in> set (filter (matches ?q) (remote w))"
    using some by (simp add: children_def)
  then have fin: "f \<in> set (remote w)" "matches ?q f" by simp_all
  then have fname: "drive_Name (meta f) = n" by (simp add: matches_def)
  define w0 where "w0 = log_Println [''findUploadFileInDrive: '', n]
               (w\<lparr>reconciled := reconciled w @ [(p, n)]\<rparr>)"
  have w0: "remote w0 = remote w" "faults w0 = faults w" "requests w0 = requests w"
    "disk w0 = disk w"
    by (simp_all add: w0_def log_Println_def)
  have a0: "answered (Suc (Suc k)) w0" using ans w0 by (simp add: answered_def)
  define w1 where "w1 = w0\<lparr>requests := requests w0 @ [FilesList ?q], faults := tl (faults w0)\<rparr>"
  let ?found = "\<lparr>drive_Id = drive_Id (meta f), drive_Name = n, drive_MimeType = [], drive_Parents = []\<rparr>"
  have lst: "Files_List ?q w0 = (Inr (?found # map (\<lambda>f. selected ?q (meta f)) rest), w1)"
    using Files_List_result [OF a0, of ?q] some
    by (simp add: w0 children_def w1_def selected_def fname)
  define w2 where "w2 = log_Println [''Update existing file to Drive''] w1"
  have w2: "remote w2 = remote w" "faults w2 = tl (faults w)"
    "requests w2 = requests w @ [FilesList ?q]" "disk w2 = disk w"
    by (simp_all add: w2_def w1_def w0 log_Println_def)
  have a2: "answered (Suc k) w2" using answered_tl [OF ans] w2 by simp
  have op: "os_Open p (w\<lparr>reconciled := reconciled w @ [(p, n)]\<rparr>)
        = Inr \<lparr>os_Name = p, os_Bytes = bytes\<rparr>"
    using opened by (simp add: os_Open_def)
  let ?file = "\<lparr>drive_Id = [], drive_Name = filepath_Base n,
                           drive_MimeType = [], drive_Parents = []\<rparr>"
  define w3 where "w3 = w2\<lparr>requests := requests w2 @ [FilesUpdate (drive_Id (meta f)) ?file bytes],
        faults := tl (faults w2),
        remote := map (patch (drive_Id (meta f)) ?file bytes) (remote w2)\<rparr>"
  have known: "drive_Id (meta f) \<in> set (map (\<lambda>f. drive_Id (meta f)) (remote w2))"
    using fin(1) by (simp add: w2)
  have up: "Files_Update (drive_Id (meta f)) ?file bytes w2 = (Inr (), w3)"
    using Files_Update_result [OF a2 known, of ?file bytes] by (simp add: w3_def)
  have pu: "processUpload p n d w = (Inr (), updateLastUpdateAppConfig w3)"
    by (simp add: processUpload_def Let_def op findUploadFileInDrive_def lst
        updateFileInDrive_def up flip: w0_def w2_def)
  have d3: "disk w3 p = Some bytes" using opened by (simp add: w3_def w2)
  show ?thesis
    using pu updateLastUpdateAppConfig_frame(3) [OF d3]
    by (simp add: updateLastUpdateAppConfig_frame requests_updateLastUpdateAppConfig w3_def w2)
qed

lemma filepath_Base_fixed: "p \<noteq> [] \<Longrightarrow> PathSeparator \<notin> set p \<Longrightarrow> filepath_Base p = p"
proof -
  assume ne: "p \<noteq> []" and no: "PathSeparator \<notin> set p"
  have "rev p \<noteq> []" using ne by simp
  then have d: "dropWhile (\<lambda>c. c = PathSeparator) (rev p) = rev p"
    using no by (cases "rev p") (auto simp: ne)
  have tw: "takeWhile (\<lambda>c. c \<noteq> PathSeparator) (rev p) = rev p"
    using no by (auto simp: takeWhile_eq_all_conv)
  show ?thesis using ne by (simp add: filepath_Base_def d tw Let_def)
qed

lemma filepath_Base_element:
  "filepath_Base p \<noteq> [] \<and> (PathSeparator \<notin> set (filepath_Base p) \<or> filepath_Base p = [PathSeparator])"
proof -
  have "PathSeparator \<notin> set (takeWhile (\<lambda>c. c \<noteq> PathSeparator) xs)" for xs
    by (auto dest: set_takeWhileD)
  then show ?thesis by (auto simp: filepath_Base_def Let_def PathSeparator_def)
qed

lemma filepath_Base_idem: "filepath_Base (filepath_Base p) = filepath_Base p"
proof (cases "filepath_Base p = [PathSeparator]")
  case True
  then show ?thesis by (simp add: filepath_Base_def Let_def)
next
  case False
  then show ?thesis using filepath_Base_element [of p] by (simp add: filepath_Base_fixed)
qed




section \<open>What an update changes\<close>

text \<open>
  \<^bold>\<open>C7\<close>, as amended. On the update path (the file opens, the query is answered with a first
  match \<open>f\<close>, the update is answered) the update request names the file \<open>f\<close> by its
  identifier and carries \<open>filepath.Base\<close> of the name of \<open>f\<close>, whatever the local path; only
  the bytes sent come from the local file. In the store the identifiers, types, parents
  and trash marks are as before; the file \<open>f\<close> is there with the bytes sent and with
  \<open>filepath.Base\<close> of its former name for a name, which is its former name when that is its
  own base name; a file with another identifier is there as it was.
\<close>

theorem update_submits_remote_base_name:
  assumes opened: "disk w p = Some bytes"
      and ans: "answered 2 w"
      and found: "children (drive_Id d) n w = f # rest"
      and submitted: "file = \<lparr>drive_Id = [], drive_Name = filepath_Base (drive_Name (meta f)),
                         drive_MimeType = [], drive_Parents = []\<rparr>"
      and w1: "w1 = snd (processUpload p n d w)"
  shows "issued w w1 = [FilesList (ChildQuery (drive_Id d) n), FilesUpdate (drive_Id (meta f)) file bytes]
       \<and> (\<forall>p' bytes'. disk w p' = Some bytes' \<longrightarrow>
             issued w (snd (processUpload p' n d w)) =
               [FilesList (ChildQuery (drive_Id d) n), FilesUpdate (drive_Id (meta f)) file bytes'])
       \<and> remote w1 = map (patch (drive_Id (meta f)) file bytes) (remote w)
       \<and> map (\<lambda>g. (drive_Id (meta g), drive_MimeType (meta g), drive_Parents (meta g),
                     explicitlyTrashed g)) (remote w1) =
           map (\<lambda>g. (drive_Id (meta g), drive_MimeType (meta g), drive_Parents (meta g),
                     explicitlyTrashed g)) (remote w)
       \<and> map (\<lambda>g. drive_Name (meta g)) (remote w1) =
           map (\<lambda>g. if drive_Id (meta g) = drive_Id (meta f)
                     then filepath_Base (drive_Name (meta f)) else drive_Name (meta g)) (remote w)
       \<and> f\<lparr>meta := (meta f)\<lparr>drive_Name := filepath_Base (drive_Name (meta f))\<rparr>, media := bytes\<rparr>
           \<in> set (remote w1)
       \<and> (filepath_Base (drive_Name (meta f)) = drive_Name (meta f) \<longrightarrow>
             f\<lparr>media := bytes\<rparr> \<in> set (remote w1))
       \<and> (\<forall>g\<in>set (remote w). drive_Id (meta g) \<noteq> drive_Id (meta f) \<longrightarrow> g \<in> set (remote w1))"
proof -
  have a2: "answered (Suc (Suc 0)) w" using ans by (simp add: eval_nat_numeral)
  have "f \<in> set (filter (matches (ChildQuery (drive_Id d) n)) (remote w))"
    using found by (simp add: children_def)
  then have fin: "f \<in> set (remote w)" and fname: "drive_Name (meta f) = n"
    by (simp_all add: matches_def)
  have file': "file = \<lparr>drive_Id = [], drive_Name = filepath_Base n,
                         drive_MimeType = [], drive_Parents = []\<rparr>"
    using submitted fname by simp
  have any: "\<exists>v. processUpload p' n d w = (Inr (), v)
        \<and> remote v = map (patch (drive_Id (meta f)) file bytes') (remote w)
        \<and> requests v = requests w @
             [FilesList (ChildQuery (drive_Id d) n), FilesUpdate (drive_Id (meta f)) file bytes']"
    if "disk w p' = Some bytes'" for p' bytes'
    using processUpload_updates [OF that a2 found] file' by auto
  obtain v where v: "processUpload p n d w = (Inr (), v)"
      "remote v = map (patch (drive_Id (meta f)) file bytes) (remote w)"
      "requests v = requests w @
             [FilesList (ChildQuery (drive_Id d) n), FilesUpdate (drive_Id (meta f)) file bytes]"
    using any [OF opened] by blast
  have w1v: "w1 = v" using w1 v(1) by simp
  have ne: "filepath_Base n \<noteq> []" using filepath_Base_element [of n] by simp
  have names: "map (\<lambda>g. drive_Name (meta g)) (remote v) =
           map (\<lambda>g. if drive_Id (meta g) = drive_Id (meta f)
                     then filepath_Base (drive_Name (meta f)) else drive_Name (meta g)) (remote w)"
    using ne by (simp add: v(2) patch_def file' fname o_def)
  have pf: "patch (drive_Id (meta f)) file bytes f =
      f\<lparr>meta := (meta f)\<lparr>drive_Name := filepath_Base (drive_Name (meta f))\<rparr>, media := bytes\<rparr>"
    using ne by (simp add: patch_def file' fname)
  have updated: "f\<lparr>meta := (meta f)\<lparr>drive_Name := filepath_Base (drive_Name (meta f))\<rparr>,
                   media := bytes\<rparr> \<in> set (remote v)"
    unfolding v(2) using fin pf by (metis image_eqI set_map)
  have kept: "f\<lparr>media := bytes\<rparr> \<in> set (remote v)"
    if "filepath_Base (drive_Name (meta f)) = drive_Name (meta f)"
    using updated that by simp
  have others: "g \<in> set (remote v)"
    if "g \<in> set (remote w)" "drive_Id (meta g) \<noteq> drive_Id (meta f)" for g
  proof -
    have "patch (drive_Id (meta f)) file bytes g = g" using that(2) by (simp add: patch_def)
    then show ?thesis unfolding v(2) using that(1) by (metis image_eqI set_map)
  qed
  have sent: "issued w (snd (processUpload p' n d w)) =
               [FilesList (ChildQuery (drive_Id d) n), FilesUpdate (drive_Id (meta f)) file bytes']"
    if "disk w p' = Some bytes'" for p' bytes'
    using any [OF that] by (auto simp: issued_def)
  have attrs: "map (\<lambda>g. (drive_Id (meta g), drive_MimeType (meta g), drive_Parents (meta g),
                     explicitlyTrashed g)) (remote v) =
           map (\<lambda>g. (drive_Id (meta g), drive_MimeType (meta g), drive_Parents (meta g),
                     explicitlyTrashed g)) (remote w)"
    by (simp add: v(2) patch_def o_def)
  have first: "issued w v = [FilesList (ChildQuery (drive_Id d) n), FilesUpdate (drive_Id (meta f)) file bytes]"
    by (simp add: issued_def v(3))
  show ?thesis
    unfolding w1v using first sent v(2) attrs names updated kept others by blast
qed

text \<open>An upload of \<open>/docs/a.txt\<close> when the store holds \<open>a.txt\<close>: the name stays, the content
  is replaced.\<close>

theorem update_submits_remote_base_name_witness:
  "disk later_run ''/docs/a.txt'' = Some ''hello'' \<and> answered 2 later_run
   \<and> children ''F1'' ''a.txt'' later_run =
       [\<lparr>meta = \<lparr>drive_Id = ''A1'', drive_Name = ''a.txt'', drive_MimeType = ''text/plain'',
                 drive_Parents = [''F1'']\<rparr>, explicitlyTrashed = False, media = ''old''\<rparr>]
   \<and> filepath_Base ''a.txt'' = ''a.txt''
   \<and> issued later_run (snd (processUpload ''/docs/a.txt'' ''a.txt'' docs_folder later_run)) =
       [FilesList (ChildQuery ''F1'' ''a.txt''),
        FilesUpdate ''A1'' \<lparr>drive_Id = [], drive_Name = ''a.txt'', drive_MimeType = [],
                     drive_Parents = []\<rparr> ''hello'']
   \<and> remote (snd (processUpload ''/docs/a.txt'' ''a.txt'' docs_folder later_run)) =
       [\<lparr>meta = docs_folder, explicitlyTrashed = False, media = []\<rparr>,
        \<lparr>meta = \<lparr>drive_Id = ''A1'', drive_Name = ''a.txt'', drive_MimeType = ''text/plain'',
                 drive_Parents = [''F1'']\<rparr>, explicitlyTrashed = False, media = ''hello''\<rparr>]"
proof -
  have base: "filepath_Base ''a.txt'' = ''a.txt''"
    by (simp add: filepath_Base_def PathSeparator_def)
  have d2: "disk later_run ''/docs/a.txt'' = Some ''hello''" by (simp add: first_run_def later_run_def)
  have a2: "answered 2 later_run" by (simp add: first_run_def later_run_def answered_def)
  have id: "drive_Id docs_folder = ''F1''" by (simp add: docs_folder_def)
  have c2: "children (drive_Id docs_folder) ''a.txt'' later_run =
       [\<lparr>meta = \<lparr>drive_Id = ''A1'', drive_Name = ''a.txt'', drive_MimeType = ''text/plain'',
                 drive_Parents = [''F1'']\<rparr>, explicitlyTrashed = False, media = ''old''\<rparr>]"
    by (simp add: children_def first_run_def later_run_def matches_def docs_folder_def)
  have rem: "remote later_run =
      [\<lparr>meta = docs_folder, explicitlyTrashed = False, media = []\<rparr>,
       \<lparr>meta = \<lparr>drive_Id = ''A1'', drive_Name = ''a.txt'', drive_MimeType = ''text/plain'',
                 drive_Parents = [''F1'']\<rparr>, explicitlyTrashed = False, media = ''old''\<rparr>]"
    by (simp add: first_run_def later_run_def)
  show ?thesis
    using update_submits_remote_base_name [OF d2 a2 c2 refl refl] d2 a2 c2
    by (simp add: id base rem patch_def docs_folder_def)
qed

text \<open>
  The claim as it is written, that an update never changes the name, fails for a stored
  name with a separator: the update of \<open>dir/a.txt\<close> names it \<open>a.txt\<close>.
\<close>

theorem update_submits_remote_base_name_counterexample:
  "disk slashed ''/docs/a.txt'' = Some ''hello'' \<and> answered 2 slashed
   \<and> children ''F1'' ''dir/a.txt'' slashed =
       [\<lparr>meta = \<lparr>drive_Id = ''A1'', drive_Name = ''dir/a.txt'', drive_MimeType = ''text/plain'',
                 drive_Parents = [''F1'']\<rparr>, explicitlyTrashed = False, media = ''old''\<rparr>]
   \<and> issued slashed (snd (processUpload ''/docs/a.txt'' ''dir/a.txt'' docs_folder slashed)) =
       [FilesList (ChildQuery ''F1'' ''dir/a.txt''),
        FilesUpdate ''A1'' \<lparr>drive_Id = [], drive_Name = ''a.txt'', drive_MimeType = [],
                     drive_Parents = []\<rparr> ''hello'']
   \<and> map (\<lambda>g. drive_Name (meta g)) (remote slashed) = [''EncryptBckDoc'', ''dir/a.txt'']
   \<and> map (\<lambda>g. drive_Name (meta g))
         (remote (snd (processUpload ''/docs/a.txt'' ''dir/a.txt'' docs_folder slashed))) =
       [''EncryptBckDoc'', ''a.txt'']"
proof -
  have base: "filepath_Base ''dir/a.txt'' = ''a.txt''"
    by (simp add: filepath_Base_def PathSeparator_def)
  have d2: "disk slashed ''/docs/a.txt'' = Some ''hello''" by (simp add: first_run_def slashed_def)
  have a2: "answered (Suc (Suc 0)) slashed" "answered 2 slashed"
    by (simp_all add: first_run_def slashed_def answered_def)
  have id: "drive_Id docs_folder = ''F1''" by (simp add: docs_folder_def)
  have c2: "children (drive_Id docs_folder) ''dir/a.txt'' slashed =
       [\<lparr>meta = \<lparr>drive_Id = ''A1'', drive_Name = ''dir/a.txt'', drive_MimeType = ''text/plain'',
                 drive_Parents = [''F1'']\<rparr>, explicitlyTrashed = False, media = ''old''\<rparr>]"
    by (simp add: children_def first_run_def slashed_def matches_def docs_folder_def)
  have rem: "remote slashed =
      [\<lparr>meta = docs_folder, explicitlyTrashed = False, media = []\<rparr>,
       \<lparr>meta = \<lparr>drive_Id = ''A1'', drive_Name = ''dir/a.txt'', drive_MimeType = ''text/plain'',
                 drive_Parents = [''F1'']\<rparr>, explicitlyTrashed = False, media = ''old''\<rparr>]"
    "requests slashed = []"
    by (simp_all add: first_run_def slashed_def)
  obtain v where v: "processUpload ''/docs/a.txt'' ''dir/a.txt'' docs_folder slashed = (Inr (), v)"
      "remote v = map (patch ''A1'' \<lparr>drive_Id = [], drive_Name = ''a.txt'',
                                 drive_MimeType = [], drive_Parents = []\<rparr> ''hello'') (remote slashed)"
      "requests v = requests slashed @
             [FilesList (ChildQuery ''F1'' ''dir/a.txt''),
              FilesUpdate ''A1'' \<lparr>drive_Id = [], drive_Name = ''a.txt'',
                 drive_MimeType = [], drive_Parents = []\<rparr> ''hello'']"
    using processUpload_updates [OF d2 a2(1) c2] by (auto simp: base id)
  have s: "snd (processUpload ''/docs/a.txt'' ''dir/a.txt'' docs_folder slashed) = v"
    by (simp add: v(1))
  have nm: "drive_Name docs_folder = ''EncryptBckDoc''" by (simp add: docs_folder_def)
  show ?thesis
    using d2 a2(2) c2 by (simp add: s v(2,3) id nm rem issued_def patch_def)
qed

section \<open>The configuration file's round trip\<close>

subsection \<open>Runes and their bytes\<close>

lemma offs: 
  fixes b :: nat
  assumes "k * m \<le> b" "b < k * m + m"
  shows "\<exists>x<m. b = k * m + x \<and> b mod m = x"
proof -
  define x where "x = b - k * m"
  have x: "x < m" "b = k * m + x" using assms by (simp_all add: x_def)
  have "b mod m = x" unfolding x(2) using x(1) by simp
  then show ?thesis using x by auto
qed

lemma low6: "0x80 \<le> b \<Longrightarrow> b \<le> (0xBF::nat) \<Longrightarrow> \<exists>y<64. b = 0x80 + y \<and> b mod 64 = y"
  using offs [of 2 64 b] by simp

lemma pack2:
  fixes x y :: nat
  assumes "y < 64"
  shows "(x * 64 + y) div 64 = x" "(x * 64 + y) mod 64 = y"
  using assms by simp_all

lemma two_bytes:
  assumes "0xC2 \<le> b0" "b0 \<le> 0xDF" "0x80 \<le> b1" "b1 \<le> (0xBF::nat)"
  defines "r \<equiv> (b0 mod 32) * 64 + b1 mod 64"
  shows "0x7F < r \<and> r \<le> 0x7FF \<and> 0xC0 + r div 64 = b0 \<and> 0x80 + r mod 64 = b1"
proof -
  obtain x where x: "x < 32" "b0 = 0xC0 + x" "b0 mod 32 = x" 
    using offs [of 6 32 b0] assms(1,2) by auto
  have x2: "2 \<le> x" using x(2) assms(1) by simp
  obtain y where y: "y < 64" "b1 = 0x80 + y" "b1 mod 64 = y" using low6 [OF assms(3,4)] by blast
  have r: "r = x * 64 + y" by (simp only: r_def x(3) y(3))
  have d: "r div 64 = x" "r mod 64 = y" unfolding r by (rule pack2 [OF y(1)])+
  have "0x7F < r" "r \<le> 0x7FF" unfolding r using x2 x(1) y(1) by simp_all
  then show ?thesis by (simp add: d x(2) y(2))
qed


lemma pack3:
  fixes x y z :: nat
  assumes "y < 64" "z < 64"
  shows "(x * 4096 + y * 64 + z) div 4096 = x" "(x * 4096 + y * 64 + z) div 64 mod 64 = y"
    "(x * 4096 + y * 64 + z) mod 64 = z"
proof -
  have e: "x * 4096 + y * 64 + z = (x * 64 + y) * 64 + z" by simp
  have d: "(x * 4096 + y * 64 + z) div 64 = x * 64 + y"
    by (subst e, rule pack2(1) [OF assms(2)])
  show "(x * 4096 + y * 64 + z) div 64 mod 64 = y"
    by (subst d, rule pack2(2) [OF assms(1)])
  show "(x * 4096 + y * 64 + z) mod 64 = z"
    by (subst e, rule pack2(2) [OF assms(2)])
  have "(x * 4096 + y * 64 + z) div 4096 = (x * 4096 + y * 64 + z) div 64 div 64"
    by (simp add: div_mult2_eq)
  also have "\<dots> = (x * 64 + y) div 64" by (simp only: d)
  also have "\<dots> = x" by (rule pack2(1) [OF assms(1)])
  finally show "(x * 4096 + y * 64 + z) div 4096 = x" .
qed

lemma pack4:
  fixes x y z u :: nat
  assumes "y < 64" "z < 64" "u < 64"
  shows "(x * 262144 + y * 4096 + z * 64 + u) div 262144 = x"
    "(x * 262144 + y * 4096 + z * 64 + u) div 4096 mod 64 = y"
    "(x * 262144 + y * 4096 + z * 64 + u) div 64 mod 64 = z"
    "(x * 262144 + y * 4096 + z * 64 + u) mod 64 = u"
proof -
  define q where "q = x * 64 + y"
  have e: "x * 262144 + y * 4096 + z * 64 + u = q * 4096 + z * 64 + u" by (simp add: q_def)
  show "(x * 262144 + y * 4096 + z * 64 + u) div 64 mod 64 = z"
    by (subst e, rule pack3(2) [OF assms(2,3)])
  show "(x * 262144 + y * 4096 + z * 64 + u) mod 64 = u"
    by (subst e, rule pack3(3) [OF assms(2,3)])
  have d: "(x * 262144 + y * 4096 + z * 64 + u) div 4096 = q"
    by (subst e, rule pack3(1) [OF assms(2,3)])
  show "(x * 262144 + y * 4096 + z * 64 + u) div 4096 mod 64 = y"
    unfolding d q_def by (rule pack2(2) [OF assms(1)])
  have "(x * 262144 + y * 4096 + z * 64 + u) div 262144
      = (x * 262144 + y * 4096 + z * 64 + u) div 4096 div 64"
    by (simp add: div_mult2_eq)
  also have "\<dots> = (x * 64 + y) div 64" by (simp only: d q_def)
  also have "\<dots> = x" by (rule pack2(1) [OF assms(1)])
  finally show "(x * 262144 + y * 4096 + z * 64 + u) div 262144 = x" .
qed

lemma three_bytes:
  assumes "0xE0 \<le> b0" "b0 \<le> 0xEF" "accept_lo b0 \<le> b1" "b1 \<le> accept_hi b0"
    "0x80 \<le> b2" "b2 \<le> (0xBF::nat)"
  defines "r \<equiv> (b0 mod 16) * 4096 + (b1 mod 64) * 64 + b2 mod 64"
  shows "0x7FF < r \<and> r \<le> 0xFFFF \<and> \<not> (0xD800 \<le> r \<and> r \<le> 0xDFFF)
    \<and> 0xE0 + r div 4096 = b0 \<and> 0x80 + r div 64 mod 64 = b1 \<and> 0x80 + r mod 64 = b2"
proof -
  have b1: "0x80 \<le> b1" "b1 \<le> 0xBF" "b0 = 0xE0 \<longrightarrow> 0xA0 \<le> b1" "b0 = 0xED \<longrightarrow> b1 \<le> 0x9F"
    using assms(1-4) by (auto simp: accept_lo_def accept_hi_def split: if_splits)
  obtain x where x: "x < 16" "b0 = 0xE0 + x" "b0 mod 16 = x"
    using offs [of 14 16 b0] assms(1,2) by auto
  obtain y where y: "y < 64" "b1 = 0x80 + y" "b1 mod 64 = y" using low6 [OF b1(1,2)] by blast
  obtain z where z: "z < 64" "b2 = 0x80 + z" "b2 mod 64 = z" using low6 [OF assms(5,6)] by blast
  have r: "r = x * 4096 + y * 64 + z" by (simp only: r_def x(3) y(3) z(3))
  have d: "r div 4096 = x" "r div 64 mod 64 = y" "r mod 64 = z"
    unfolding r by (rule pack3 [OF y(1) z(1)])+
  have lo: "x = 0 \<longrightarrow> 32 \<le> y" and hi: "x = 13 \<longrightarrow> y < 32"
    using b1(3,4) x(2) y(2) by auto
  have r1: "0x7FF < r" unfolding r using lo by (cases "x = 0") auto
  have r2: "r \<le> 0xFFFF" unfolding r using x(1) y(1) z(1) by simp
  have r3: "\<not> (0xD800 \<le> r \<and> r \<le> 0xDFFF)"
  proof (cases "x = 13")
    case True
    then show ?thesis unfolding r using hi z(1) by simp
  next
    case False
    then have "x \<le> 12 \<or> 14 \<le> x" by arith
    then show ?thesis unfolding r using y(1) z(1) by auto
  qed
  show ?thesis using r1 r2 r3 by (simp add: d x(2) y(2) z(2))
qed

lemma four_bytes:
  assumes "0xF0 \<le> b0" "b0 \<le> 0xF4" "accept_lo b0 \<le> b1" "b1 \<le> accept_hi b0"
    "0x80 \<le> b2" "b2 \<le> (0xBF::nat)" "0x80 \<le> b3" "b3 \<le> (0xBF::nat)"
  defines "r \<equiv> (b0 mod 8) * 262144 + (b1 mod 64) * 4096 + (b2 mod 64) * 64 + b3 mod 64"
  shows "0xFFFF < r \<and> r \<le> 0x10FFFF
    \<and> 0xF0 + r div 262144 = b0 \<and> 0x80 + r div 4096 mod 64 = b1
    \<and> 0x80 + r div 64 mod 64 = b2 \<and> 0x80 + r mod 64 = b3"
proof -
  have b1: "0x80 \<le> b1" "b1 \<le> 0xBF" "b0 = 0xF0 \<longrightarrow> 0x90 \<le> b1" "b0 = 0xF4 \<longrightarrow> b1 \<le> 0x8F"
    using assms(1-4) by (auto simp: accept_lo_def accept_hi_def split: if_splits)
  obtain x where x: "x < 8" "b0 = 0xF0 + x" "b0 mod 8 = x"
    using offs [of 30 8 b0] assms(1,2) by auto
  have x4: "x \<le> 4" using x(2) assms(2) by simp
  obtain y where y: "y < 64" "b1 = 0x80 + y" "b1 mod 64 = y" using low6 [OF b1(1,2)] by blast
  obtain z where z: "z < 64" "b2 = 0x80 + z" "b2 mod 64 = z" using low6 [OF assms(5,6)] by blast
  obtain u where u: "u < 64" "b3 = 0x80 + u" "b3 mod 64 = u" using low6 [OF assms(7,8)] by blast
  have r: "r = x * 262144 + y * 4096 + z * 64 + u"
    by (simp only: r_def x(3) y(3) z(3) u(3))
  have d: "r div 262144 = x" "r div 4096 mod 64 = y" "r div 64 mod 64 = z" "r mod 64 = u"
    unfolding r by (rule pack4 [OF y(1) z(1) u(1)])+
  have lo: "x = 0 \<longrightarrow> 16 \<le> y" and hi: "x = 4 \<longrightarrow> y < 16"
    using b1(3,4) x(2) y(2) by auto
  have r1: "0xFFFF < r" unfolding r using lo by (cases "x = 0") auto
  have r2: "r \<le> 0x10FFFF"
  proof (cases "x = 4")
    case True
    then show ?thesis unfolding r using hi z(1) u(1) by simp
  next
    case False
    then have "x \<le> 3" using x4 by arith
    then show ?thesis unfolding r using y(1) z(1) u(1) by simp
  qed
  show ?thesis using r1 r2 by (simp add: d x(2) y(2) z(2) u(2))
qed


lemma char_of_byte: "char_of (byte c) = c"
  by (simp add: byte_def)

lemma rune_width_cases:
  "0x80 \<le> byte c \<Longrightarrow>
   (rune_width (byte c) = 0 \<and> (byte c < 0xC2 \<or> 0xF4 < byte c))
   \<or> (rune_width (byte c) = 2 \<and> 0xC2 \<le> byte c \<and> byte c \<le> 0xDF)
   \<or> (rune_width (byte c) = 3 \<and> 0xE0 \<le> byte c \<and> byte c \<le> 0xEF)
   \<or> (rune_width (byte c) = 4 \<and> 0xF0 \<le> byte c \<and> byte c \<le> 0xF4)"
  by (auto simp: rune_width_def)

lemma accept_plain: "b0 \<le> 0xDF \<Longrightarrow> accept_lo b0 = 0x80 \<and> accept_hi b0 = 0xBF"
  by (simp add: accept_lo_def accept_hi_def)

lemma accept_range: "0x80 \<le> accept_lo b0 \<and> accept_hi b0 \<le> 0xBF"
  by (simp add: accept_lo_def accept_hi_def)

lemma EncodeRune_2:
  "0x7F < r \<Longrightarrow> r \<le> 0x7FF \<Longrightarrow>
   EncodeRune r = [char_of (0xC0 + r div 64), char_of (0x80 + r mod 64)]"
  by (simp add: EncodeRune_def)

lemma EncodeRune_3:
  "0x7FF < r \<Longrightarrow> r \<le> 0xFFFF \<Longrightarrow> \<not> (0xD800 \<le> r \<and> r \<le> 0xDFFF) \<Longrightarrow>
   EncodeRune r = [char_of (0xE0 + r div 4096), char_of (0x80 + r div 64 mod 64),
                   char_of (0x80 + r mod 64)]"
  by (auto simp: EncodeRune_def Let_def)

lemma EncodeRune_4:
  "0xFFFF < r \<Longrightarrow> r \<le> 0x10FFFF \<Longrightarrow>
   EncodeRune r = [char_of (0xF0 + r div 262144), char_of (0x80 + r div 4096 mod 64),
                   char_of (0x80 + r div 64 mod 64), char_of (0x80 + r mod 64)]"
  by (auto simp: EncodeRune_def Let_def)

lemma DecodeRune_multi:
  assumes high: "0x80 \<le> byte c"
      and dec: "DecodeRune (c # s) = (r, w)"
      and ok: "\<not> (r = RuneError \<and> w = 1)"
  shows "2 \<le> w \<and> w \<le> length (c # s) \<and> EncodeRune r = take w (c # s)
       \<and> (\<forall>x\<in>set (take w (c # s)). 0x80 \<le> byte x)
       \<and> (\<forall>ys. DecodeRune (take w (c # s) @ ys) = (r, w))"
proof -
  consider
      (w0) "rune_width (byte c) = 0"
    | (w2) "rune_width (byte c) = 2" "0xC2 \<le> byte c" "byte c \<le> 0xDF"
    | (w3) "rune_width (byte c) = 3" "0xE0 \<le> byte c" "byte c \<le> 0xEF"
    | (w4) "rune_width (byte c) = 4" "0xF0 \<le> byte c" "byte c \<le> 0xF4"
    using rune_width_cases [OF high] by (elim disjE conjE) blast+
  then show ?thesis
  proof cases
    case w0
    then show ?thesis using dec ok by (simp add: Let_def)
  next
    case w2
    show ?thesis
    proof (cases s)
      case Nil
      then show ?thesis using dec ok w2 by (simp add: Let_def)
    next
      case (Cons c1 s')
      have in_range: "\<not> (byte c1 < accept_lo (byte c) \<or> accept_hi (byte c) < byte c1)"
        using dec ok w2 Cons by (auto simp: Let_def split: if_splits)
      then have b1: "0x80 \<le> byte c1" "byte c1 \<le> 0xBF"
        using accept_plain [OF w2(3)] by auto
      have rw: "r = (byte c mod 32) * 64 + byte c1 mod 64" "w = 2"
        using dec w2 Cons in_range by (auto simp: Let_def)
      have enc: "EncodeRune r = [c, c1]"
        using two_bytes [OF w2(2,3) b1] by (simp add: EncodeRune_def rw char_of_byte)
      have again: "DecodeRune ([c, c1] @ ys) = (r, w)" for ys
        using w2 in_range by (simp add: Let_def rw)
      show ?thesis using enc again high b1 by (simp add: rw Cons)
    qed
  next
    case w3
    have len: "\<not> length (c # s) < 3" using dec ok w3 by (auto simp: Let_def split: if_splits)
    then obtain c1 c2 s' where s: "s = c1 # c2 # s'"
      by (cases s; cases "tl s") auto
    have in_range: "\<not> (byte c1 < accept_lo (byte c) \<or> accept_hi (byte c) < byte c1)"
      and cont: "continuation c2"
      using dec ok w3 s by (auto simp: Let_def split: if_splits)
    have b1: "accept_lo (byte c) \<le> byte c1" "byte c1 \<le> accept_hi (byte c)"
      using in_range by auto
    have b1': "0x80 \<le> byte c1" using b1(1) accept_range [of "byte c"] by linarith
    have b2: "0x80 \<le> byte c2" "byte c2 \<le> 0xBF" using cont by (auto simp: continuation_def)
    have rw: "r = (byte c mod 16) * 4096 + (byte c1 mod 64) * 64 + byte c2 mod 64" "w = 3"
      using dec w3 s in_range cont by (auto simp: Let_def)
    have enc: "EncodeRune r = [c, c1, c2]"
    proof -
      note f = three_bytes [OF w3(2,3) b1 b2, folded rw(1)]
      show ?thesis using f by (subst EncodeRune_3) (simp_all add: char_of_byte)
    qed
    have again: "DecodeRune ([c, c1, c2] @ ys) = (r, w)" for ys
      using w3 in_range cont by (simp add: Let_def rw)
    show ?thesis using enc again high b1' b2 by (simp add: rw s)
  next
    case w4
    have len: "\<not> length (c # s) < 4" using dec ok w4 by (auto simp: Let_def split: if_splits)
    then obtain c1 c2 c3 s' where s: "s = c1 # c2 # c3 # s'"
      by (cases s; cases "tl s"; cases "tl (tl s)") auto
    have in_range: "\<not> (byte c1 < accept_lo (byte c) \<or> accept_hi (byte c) < byte c1)"
      and cont: "continuation c2" "continuation c3"
      using dec ok w4 s by (auto simp: Let_def split: if_splits)
    have b1: "accept_lo (byte c) \<le> byte c1" "byte c1 \<le> accept_hi (byte c)"
      using in_range by auto
    have b1': "0x80 \<le> byte c1" using b1(1) accept_range [of "byte c"] by linarith
    have b2: "0x80 \<le> byte c2" "byte c2 \<le> 0xBF" using cont by (auto simp: continuation_def)
    have b3: "0x80 \<le> byte c3" "byte c3 \<le> 0xBF" using cont by (auto simp: continuation_def)
    have rw: "r = (byte c mod 8) * 262144 + (byte c1 mod 64) * 4096 + (byte c2 mod 64) * 64
                + byte c3 mod 64" "w = 4"
      using dec w4 s in_range cont by (auto simp: Let_def)
    have enc: "EncodeRune r = [c, c1, c2, c3]"
    proof -
      note f = four_bytes [OF w4(2,3) b1 b2 b3, folded rw(1)]
      show ?thesis using f by (subst EncodeRune_4) (simp_all add: char_of_byte)
    qed
    have again: "DecodeRune ([c, c1, c2, c3] @ ys) = (r, w)" for ys
      using w4 in_range cont by (simp add: Let_def rw)
    show ?thesis using enc again high b1' b2 b3 by (simp add: rw s)
  qed
qed

subsection \<open>Reading back an encoded string\<close>

lemma hex_digit: "n < 16 \<Longrightarrow> hex_value (hex n) = Some n"
proof -
  assume "n < 16"
  then have "n \<in> set [0..<16]" by simp
  then show ?thesis
    by (auto simp: upt_rec hex_def hex_value_def byte_def Let_def)
qed

lemma getu4_00:
  "hi < 16 \<Longrightarrow> lo < 16 \<Longrightarrow> getu4 (''00'' @ [hex hi, hex lo] @ rest) = Some (hi * 16 + lo)"
proof -
  assume d: "hi < 16" "lo < 16"
  have z: "hex_value CHR ''0'' = Some 0" by (simp add: hex_value_def byte_def)
  show ?thesis by (simp add: getu4_def hex_digit d z)
qed

lemma scan_plain:
  "plain c \<Longrightarrow> readValue (InString Plain raw) ps (c # cs) =
                readValue (InString Plain (raw @ [c])) ps cs"
  by (simp add: plain_def)

lemma scan_plain_block:
  "\<forall>x\<in>set xs. plain x \<Longrightarrow>
   readValue (InString Plain raw) ps (xs @ ys) = readValue (InString Plain (raw @ xs)) ps ys"
proof (induction xs arbitrary: raw)
  case Nil
  then show ?case by simp
next
  case (Cons x xs)
  have "readValue (InString Plain raw) ps ((x # xs) @ ys)
      = readValue (InString Plain (raw @ [x])) ps (xs @ ys)"
    using Cons.prems scan_plain [of x raw ps "xs @ ys"] by simp
  also have "\<dots> = readValue (InString Plain ((raw @ [x]) @ xs)) ps ys"
    using Cons.prems by (intro Cons.IH) simp
  finally show ?case by simp
qed

lemma scan_escape:
  "e = backslash \<or> e = dquote \<or> e = CHR ''b'' \<or> e = CHR ''f'' \<or> e = CHR ''n'' \<or> e = CHR ''r''
     \<or> e = CHR ''t'' \<Longrightarrow>
   readValue (InString Plain raw) ps (backslash # e # cs) =
   readValue (InString Plain (raw @ [backslash, e])) ps cs"
  by auto

lemma scan_u:
  "hex_value a = Some x3 \<Longrightarrow> hex_value b = Some x2 \<Longrightarrow> hex_value c = Some x1 \<Longrightarrow>
   hex_value d = Some x0 \<Longrightarrow>
   readValue (InString Plain raw) ps (backslash # CHR ''u'' # a # b # c # d # cs) =
   readValue (InString Plain (raw @ [backslash, CHR ''u'', a, b, c, d])) ps cs"
  by simp

lemma byte_split: "byte c div 16 * 16 + byte c mod 16 = byte c"
  by simp

lemma EncodeRune_ascii: "byte c < 0x80 \<Longrightarrow> EncodeRune (byte c) = [c]"
  by (simp add: EncodeRune_def char_of_byte)

lemma byte_eq_iff: "(byte a = byte b) = (a = b)"
  by (auto simp: byte_def)

lemma escaped_control:
  assumes "\<not> short_escape c"
  shows "escape_ascii c = [backslash, CHR ''u'', CHR ''0'', CHR ''0'',
                           hex (byte c div 16), hex (byte c mod 16)]"
  using assms by (simp add: escape_ascii_def short_escape_def)

lemma scan_ascii:
  assumes "byte c < 0x80"
  shows "readValue (InString Plain raw) ps ((if htmlSafe c then [c] else escape_ascii c) @ cs) =
         readValue (InString Plain (raw @ (if htmlSafe c then [c] else escape_ascii c))) ps cs"
proof (cases "htmlSafe c")
  case True
  then have "plain c" by (auto simp: htmlSafe_def plain_def)
  then show ?thesis using True scan_plain [of c raw ps cs] by simp
next
  case False
  show ?thesis
  proof (cases "short_escape c")
    case True
    then show ?thesis using False by (auto simp: escape_ascii_def short_escape_def)
  next
    case short: False
    have hi: "byte c div 16 < 16" and lo: "byte c mod 16 < 16" using assms by simp_all
    have z: "hex_value CHR ''0'' = Some 0" by (simp add: hex_value_def byte_def)
    note e = escaped_control [OF short]
    show ?thesis
      using False scan_u [OF z z hex_digit [OF hi] hex_digit [OF lo], of raw ps cs]
      by (simp add: e del: readValue.simps)
  qed
qed

lemma unquote_ascii:
  assumes "byte c < 0x80"
  shows "unquote ((if htmlSafe c then [c] else escape_ascii c) @ t) = emit [c] (unquote t)"
proof (cases "htmlSafe c")
  case True
  then show ?thesis using assms by (auto simp: htmlSafe_def)
next
  case False
  show ?thesis
  proof (cases "short_escape c")
    case True
    then show ?thesis using False by (auto simp: escape_ascii_def unescape_def short_escape_def)
  next
    case short: False
    have hi: "byte c div 16 < 16" and lo: "byte c mod 16 < 16" using assms by simp_all
    have g: "getu4 (CHR ''0'' # CHR ''0'' # hex (byte c div 16) # hex (byte c mod 16) # t)
        = Some (byte c)"
      using getu4_00 [OF hi lo, of t] by (simp add: byte_split)
    note e = escaped_control [OF short]
    show ?thesis
      using False assms by (simp add: e g EncodeRune_ascii)
  qed
qed

lemma DecodeRune_ascii: "byte c < 0x80 \<Longrightarrow> DecodeRune (c # s) = (byte c, 1)"
  by (simp add: rune_width_def Let_def)

lemma DecodeRune_width: "DecodeRune (c # s) = (r, w) \<Longrightarrow> 1 \<le> w"
  by (auto simp: Let_def split: if_splits)

lemma high_plain: "0x80 \<le> byte x \<Longrightarrow> plain x"
  by (auto simp: plain_def byte_def)

lemma encode_ascii:
  "byte c < 0x80 \<Longrightarrow>
   encode_chars (c # s) = (if htmlSafe c then [c] else escape_ascii c) @ encode_chars s"
  by simp

lemma encode_invalid:
  "\<not> byte c < 0x80 \<Longrightarrow> DecodeRune (c # s) = (RuneError, 1) \<Longrightarrow>
   encode_chars (c # s) = [backslash, CHR ''u'', CHR ''f'', CHR ''f'', CHR ''f'', CHR ''d'']
                           @ encode_chars s"
  by (simp del: DecodeRune.simps)

lemma encode_separator:
  "\<not> byte c < 0x80 \<Longrightarrow> DecodeRune (c # s) = (r, w) \<Longrightarrow> \<not> (r = RuneError \<and> w = 1) \<Longrightarrow>
   r = 0x2028 \<or> r = 0x2029 \<Longrightarrow>
   encode_chars (c # s) = [backslash, CHR ''u'', CHR ''2'', CHR ''0'', CHR ''2'', hex (r mod 16)]
                           @ encode_chars (drop w (c # s))"
  by (auto simp del: DecodeRune.simps)

lemma encode_copy:
  "\<not> byte c < 0x80 \<Longrightarrow> DecodeRune (c # s) = (r, w) \<Longrightarrow> \<not> (r = RuneError \<and> w = 1) \<Longrightarrow>
   r \<noteq> 0x2028 \<Longrightarrow> r \<noteq> 0x2029 \<Longrightarrow>
   encode_chars (c # s) = take w (c # s) @ encode_chars (drop w (c # s))"
  by (auto simp del: DecodeRune.simps)

lemma hex_literals:
  "hex_value CHR ''f'' = Some 15" "hex_value CHR ''d'' = Some 13"
  "hex_value CHR ''2'' = Some 2" "hex_value CHR ''0'' = Some 0"
  by (simp_all add: hex_value_def byte_def)

lemma scan_encoded:
  "readValue (InString Plain raw) ps (encode_chars s @ cs) =
   readValue (InString Plain (raw @ encode_chars s)) ps cs"
proof (induction s arbitrary: raw rule: length_induct)
  case (1 s)
  note IH = "1.IH" [rule_format]
  show ?case
  proof (cases s)
    case Nil
    then show ?thesis by simp
  next
    case (Cons c s')
    show ?thesis
    proof (cases "byte c < 0x80")
      case True
      let ?e = "if htmlSafe c then [c] else escape_ascii c"
      have "readValue (InString Plain raw) ps (encode_chars s @ cs)
          = readValue (InString Plain raw) ps (?e @ (encode_chars s' @ cs))"
        by (simp only: Cons encode_ascii [OF True] append_assoc)
      also have "\<dots> = readValue (InString Plain (raw @ ?e)) ps (encode_chars s' @ cs)"
        by (rule scan_ascii [OF True])
      also have "\<dots> = readValue (InString Plain ((raw @ ?e) @ encode_chars s')) ps cs"
        by (rule IH) (simp add: Cons)
      finally show ?thesis by (simp only: Cons encode_ascii [OF True] append_assoc)
    next
      case False
      obtain r w where dec: "DecodeRune (c # s') = (r, w)" by force
      have w1: "1 \<le> w" using dec by (rule DecodeRune_width)
      have shorter: "length (drop w (c # s')) < length s" using w1 by (simp add: Cons)
      show ?thesis
      proof (cases "r = RuneError \<and> w = 1")
        case True
        let ?e = "[backslash, CHR ''u'', CHR ''f'', CHR ''f'', CHR ''f'', CHR ''d'']"
        have enc: "encode_chars s = ?e @ encode_chars s'"
          using encode_invalid [OF False, of s'] dec True by (simp add: Cons)
        have "readValue (InString Plain raw) ps (?e @ (encode_chars s' @ cs))
            = readValue (InString Plain (raw @ ?e)) ps (encode_chars s' @ cs)"
          using scan_u [OF hex_literals(1) hex_literals(1) hex_literals(1) hex_literals(2)]
          by (simp del: readValue.simps)
        also have "\<dots> = readValue (InString Plain ((raw @ ?e) @ encode_chars s')) ps cs"
          by (rule IH) (simp add: Cons)
        finally show ?thesis by (simp only: enc append_assoc)
      next
        case valid: False
        show ?thesis
        proof (cases "r = 0x2028 \<or> r = 0x2029")
          case True
          let ?e = "[backslash, CHR ''u'', CHR ''2'', CHR ''0'', CHR ''2'', hex (r mod 16)]"
          let ?t = "drop w (c # s')"
          have enc: "encode_chars s = ?e @ encode_chars ?t"
            using encode_separator [OF False dec valid True] by (simp add: Cons)
          have d: "hex_value (hex (r mod 16)) = Some (r mod 16)" by (rule hex_digit) simp
          have "readValue (InString Plain raw) ps (?e @ (encode_chars ?t @ cs))
              = readValue (InString Plain (raw @ ?e)) ps (encode_chars ?t @ cs)"
            using scan_u [OF hex_literals(3) hex_literals(4) hex_literals(3) d]
            by (simp del: readValue.simps)
          also have "\<dots> = readValue (InString Plain ((raw @ ?e) @ encode_chars ?t)) ps cs"
            by (rule IH) (rule shorter)
          finally show ?thesis by (simp only: enc append_assoc)
        next
          case copy: False
          let ?e = "take w (c # s')"
          let ?t = "drop w (c # s')"
          have enc: "encode_chars s = ?e @ encode_chars ?t"
            using encode_copy [OF False dec valid] copy by (simp add: Cons)
          have high: "0x80 \<le> byte c" using False by simp
          have "\<forall>x\<in>set ?e. plain x"
            using DecodeRune_multi [OF high dec valid] high_plain by blast
          then have "readValue (InString Plain raw) ps (?e @ (encode_chars ?t @ cs))
              = readValue (InString Plain (raw @ ?e)) ps (encode_chars ?t @ cs)"
            by (rule scan_plain_block)
          also have "\<dots> = readValue (InString Plain ((raw @ ?e) @ encode_chars ?t)) ps cs"
            by (rule IH) (rule shorter)
          finally show ?thesis by (simp only: enc append_assoc)
        qed
      qed
    qed
  qed
qed

lemma getu4_separator:
  assumes "r = 0x2028 \<or> r = (0x2029::nat)"
  shows "getu4 (CHR ''2'' # CHR ''0'' # CHR ''2'' # hex (r mod 16) # t) = Some r"
proof -
  have d: "hex_value (hex (r mod 16)) = Some (r mod 16)" by (rule hex_digit) simp
  show ?thesis using assms by (auto simp: getu4_def hex_literals d)
qed

lemma getu4_fffd: "getu4 (CHR ''f'' # CHR ''f'' # CHR ''f'' # CHR ''d'' # t) = Some RuneError"
  by (simp add: getu4_def hex_literals RuneError_def)

lemma coerced_invalid:
  "DecodeRune (c # s) = (r, w) \<Longrightarrow> r = RuneError \<and> w = 1 \<Longrightarrow>
   coerced (c # s) = EncodeRune RuneError @ coerced s"
  by (simp del: DecodeRune.simps)

lemma coerced_rune:
  "DecodeRune (c # s) = (r, w) \<Longrightarrow> \<not> (r = RuneError \<and> w = 1) \<Longrightarrow>
   coerced (c # s) = take w (c # s) @ coerced (drop w (c # s))"
  by (auto simp del: DecodeRune.simps)

text \<open>What the decoder makes of an encoded string is the string coerced to valid UTF-8.\<close>

lemma unquote_encoded: "unquote (encode_chars s) = Some (coerced s)"
proof (induction s rule: length_induct)
  case (1 s)
  note IH = "1.IH" [rule_format]
  show ?case
  proof (cases s)
    case Nil
    then show ?thesis by simp
  next
    case (Cons c s')
    obtain r w where dec: "DecodeRune (c # s') = (r, w)" by force
    have w1: "1 \<le> w" using dec by (rule DecodeRune_width)
    have shorter: "length (drop w (c # s')) < length s" using w1 by (simp add: Cons)
    have rest: "unquote (encode_chars (drop w (c # s'))) = Some (coerced (drop w (c # s')))"
      using IH [OF shorter] .
    have rest1: "unquote (encode_chars s') = Some (coerced s')"
      by (rule IH) (simp add: Cons)
    show ?thesis
    proof (cases "byte c < 0x80")
      case True
      have r: "r = byte c" "w = 1" using dec DecodeRune_ascii [OF True, of s'] by simp_all
      have "r \<noteq> RuneError" using True by (simp add: r RuneError_def)
      then have c1: "coerced (c # s') = c # coerced s'"
        using coerced_rune [OF dec] by (simp add: r del: coerced.simps)
      have "unquote (encode_chars (c # s'))
          = unquote ((if htmlSafe c then [c] else escape_ascii c) @ encode_chars s')"
        by (simp only: encode_ascii [OF True])
      also have "\<dots> = emit [c] (unquote (encode_chars s'))"
        by (rule unquote_ascii [OF True])
      also have "\<dots> = Some (c # coerced s')" by (simp add: rest1 emit_def)
      finally show ?thesis unfolding Cons c1 .
    next
      case False
      have high: "0x80 \<le> byte c" using False by simp
      show ?thesis
      proof (cases "r = RuneError \<and> w = 1")
        case True
        have enc: "encode_chars s = [backslash, CHR ''u'', CHR ''f'', CHR ''f'', CHR ''f'', CHR ''d'']
                           @ encode_chars s'"
          using encode_invalid [OF False, of s'] dec True by (simp add: Cons)
        have "unquote ([backslash, CHR ''u'', CHR ''f'', CHR ''f'', CHR ''f'', CHR ''d'']
                           @ encode_chars s')
            = emit (EncodeRune RuneError) (unquote (encode_chars s'))"
          by (simp add: getu4_fffd) (simp add: RuneError_def)
        then have "unquote (encode_chars s) = Some (EncodeRune RuneError @ coerced s')"
          by (simp only: enc rest1 emit_def option.case)
        then show ?thesis using coerced_invalid [OF dec True] by (simp only: Cons)
      next
        case valid: False
        note multi = DecodeRune_multi [OF high dec valid]
        have c2: "coerced s = take w (c # s') @ coerced (drop w (c # s'))"
          using coerced_rune [OF dec valid] by (simp only: Cons)
        show ?thesis
        proof (cases "r = 0x2028 \<or> r = 0x2029")
          case True
          have enc: "encode_chars s =
              [backslash, CHR ''u'', CHR ''2'', CHR ''0'', CHR ''2'', hex (r mod 16)]
              @ encode_chars (drop w (c # s'))"
            using encode_separator [OF False dec valid True] by (simp add: Cons)
          have "unquote ([backslash, CHR ''u'', CHR ''2'', CHR ''0'', CHR ''2'', hex (r mod 16)]
                  @ encode_chars (drop w (c # s')))
              = emit (EncodeRune r) (unquote (encode_chars (drop w (c # s'))))"
            using True by (auto simp: getu4_separator)
          then have "unquote (encode_chars s)
              = emit (take w (c # s')) (Some (coerced (drop w (c # s'))))"
            using multi by (simp only: enc rest)
          then show ?thesis by (simp only: emit_def c2 option.case)
        next
          case copy: False
          have enc: "encode_chars s = take w (c # s') @ encode_chars (drop w (c # s'))"
            using encode_copy [OF False dec valid] copy by (simp add: Cons)
          obtain e where e: "take w (c # s') = c # e" using w1 by (cases w) auto
          have again: "DecodeRune (c # e @ encode_chars (drop w (c # s'))) = (r, w)"
            using multi e by (metis append_Cons)
          have len: "length (take w (c # s')) = w" using multi by simp
          have "unquote (take w (c # s') @ encode_chars (drop w (c # s')))
              = emit (EncodeRune r) (unquote (encode_chars (drop w (c # s'))))"
          proof -
            have nb: "c \<noteq> backslash" "c \<noteq> dquote" "\<not> byte c < 0x20"
              using high by (auto simp: byte_def)
            have "drop w (c # e @ encode_chars (drop w (c # s'))) = encode_chars (drop w (c # s'))"
              using len e by (metis append_Cons append_eq_conv_conj)
            then show ?thesis
              using nb False again by (simp add: e del: DecodeRune.simps drop.simps)
          qed
          then have "unquote (encode_chars s)
              = emit (take w (c # s')) (Some (coerced (drop w (c # s'))))"
            using multi by (simp only: enc rest)
          then show ?thesis by (simp only: emit_def c2 option.case)
        qed
      qed
    qed
  qed
qed

text \<open>Coercion changes nothing in a string that is valid UTF-8, and something in any
  other.\<close>

lemma coerced_valid: "valid_utf8 s \<Longrightarrow> coerced s = s"
proof (induction s rule: length_induct)
  case (1 s)
  note IH = "1.IH" [rule_format]
  show ?case
  proof (cases s)
    case Nil
    then show ?thesis by simp
  next
    case (Cons c s')
    obtain r w where dec: "DecodeRune (c # s') = (r, w)" by force
    have w1: "1 \<le> w" using dec by (rule DecodeRune_width)
    have v: "\<not> (r = RuneError \<and> w = 1)" "valid_utf8 (drop w (c # s'))"
      using "1.prems" dec by (simp_all add: Cons del: DecodeRune.simps)
    have "coerced (drop w (c # s')) = drop w (c # s')"
      using w1 v(2) by (intro IH) (simp add: Cons)
    then show ?thesis using coerced_rune [OF dec v(1)] by (simp only: Cons append_take_drop_id)
  qed
qed

lemma coerced_length: "length s \<le> length (coerced s)"
proof (induction s rule: length_induct)
  case (1 s)
  note IH = "1.IH" [rule_format]
  show ?case
  proof (cases s)
    case Nil
    then show ?thesis by simp
  next
    case (Cons c s')
    obtain r w where dec: "DecodeRune (c # s') = (r, w)" by force
    have w1: "1 \<le> w" using dec by (rule DecodeRune_width)
    have a: "length s' \<le> length (coerced s')" by (rule IH) (simp add: Cons)
    have b: "length (drop w (c # s')) \<le> length (coerced (drop w (c # s')))"
      using w1 by (intro IH) (simp add: Cons)
    have three: "length (EncodeRune RuneError) = 3" by (simp add: EncodeRune_def RuneError_def)
    show ?thesis
    proof (cases "r = RuneError \<and> w = 1")
      case True
      then show ?thesis using coerced_invalid [OF dec] a three by (simp add: Cons del: coerced.simps)
    next
      case False
      have "length (take w (c # s')) + length (drop w (c # s')) = length (c # s')"
        by (simp del: take.simps drop.simps)
      then show ?thesis
        using coerced_rune [OF dec False] b
        by (simp add: Cons del: coerced.simps take.simps drop.simps)
    qed
  qed
qed

lemma coerced_fixed: "coerced s = s \<Longrightarrow> valid_utf8 s"
proof (induction s rule: length_induct)
  case (1 s)
  note IH = "1.IH" [rule_format]
  show ?case
  proof (cases s)
    case Nil
    then show ?thesis by simp
  next
    case (Cons c s')
    obtain r w where dec: "DecodeRune (c # s') = (r, w)" by force
    have w1: "1 \<le> w" using dec by (rule DecodeRune_width)
    have three: "length (EncodeRune RuneError) = 3" by (simp add: EncodeRune_def RuneError_def)
    have valid: "\<not> (r = RuneError \<and> w = 1)"
    proof
      assume "r = RuneError \<and> w = 1"
      then have "coerced (c # s') = EncodeRune RuneError @ coerced s'"
        by (rule coerced_invalid [OF dec])
      then have "c # s' = EncodeRune RuneError @ coerced s'"
        using "1.prems" by (simp only: Cons)
      then have "length (c # s') = length (EncodeRune RuneError @ coerced s')" by (rule arg_cong)
      then have "length (c # s') = 3 + length (coerced s')"
        using three by (simp only: length_append)
      then show False using coerced_length [of s'] by simp
    qed
    then have "take w (c # s') @ coerced (drop w (c # s')) = take w (c # s') @ drop w (c # s')"
      using coerced_rune [OF dec valid] "1.prems" by (simp only: Cons append_take_drop_id)
    then have "coerced (drop w (c # s')) = drop w (c # s')" by (simp only: same_append_eq)
    then have "valid_utf8 (drop w (c # s'))"
      using w1 by (intro IH) (simp_all add: Cons)
    then show ?thesis using dec valid by (simp add: Cons del: DecodeRune.simps)
  qed
qed

lemma coerced_iff: "(coerced s = s) = valid_utf8 s"
  using coerced_valid coerced_fixed by blast

subsection \<open>Reading back an encoded configuration\<close>

lemma literal_end:
  assumes "ps \<noteq> []"
  shows "readValue (InString Plain []) ps (encode_chars s @ dquote # cs) =
         readValue (EndValue (JString (coerced s))) ps cs"
proof -
  have "readValue (InString Plain []) ps (encode_chars s @ dquote # cs)
      = readValue (InString Plain ([] @ encode_chars s)) ps (dquote # cs)"
    by (rule scan_encoded)
  then show ?thesis
    using assms by (simp add: unquote_encoded ended_def)
qed

lemma read_string:
  assumes "ps \<noteq> []"
  shows "readValue BeginValue ps (encode_string s @ cs) =
         readValue (EndValue (JString (coerced s))) ps cs"
proof -
  have "readValue BeginValue ps (encode_string s @ cs)
      = readValue (InString Plain []) ps (encode_chars s @ dquote # cs)"
    by (simp add: encode_string_def stateBeginValue_def isSpace_def)
  then show ?thesis using literal_end [OF assms] by simp
qed

lemma read_key:
  assumes "start = BeginString \<or> start = BeginStringOrEmpty" "coerced key = key"
  shows "readValue start (ObjectKey members # below) (encode_string key @ CHR '':'' # cs) =
         readValue BeginValue (ObjectValue members key # below) cs"
proof -
  have "readValue start (ObjectKey members # below) (encode_string key @ CHR '':'' # cs)
      = readValue (InString Plain []) (ObjectKey members # below)
          (encode_chars key @ dquote # CHR '':'' # cs)"
    using assms(1) by (auto simp: encode_string_def stateBeginString_def isSpace_def)
  also have "\<dots> = readValue (EndValue (JString (coerced key))) (ObjectKey members # below)
                      (CHR '':'' # cs)"
    by (rule literal_end) simp
  finally show ?thesis by (simp add: stateEndValue_def isSpace_def assms(2))
qed

lemma read_elems:
  "ss \<noteq> [] \<Longrightarrow> below \<noteq> [] \<Longrightarrow>
   readValue BeginValue (ArrayValue elems # below) (encode_elems ss @ CHR '']'' # cs) =
   readValue (EndValue (JArray (elems @ map (\<lambda>s. JString (coerced s)) ss))) below cs"
proof (induction ss arbitrary: elems rule: encode_elems.induct)
  case 1
  then show ?case by simp
next
  case (2 s)
  have "readValue BeginValue (ArrayValue elems # below) (encode_elems [s] @ CHR '']'' # cs)
      = readValue (EndValue (JString (coerced s))) (ArrayValue elems # below) (CHR '']'' # cs)"
    using read_string [of "ArrayValue elems # below" s "CHR '']'' # cs"] by simp
  then show ?case using 2 by (simp add: stateEndValue_def isSpace_def ended_def)
next
  case (3 s t ss)
  have "readValue BeginValue (ArrayValue elems # below)
          (encode_elems (s # t # ss) @ CHR '']'' # cs)
      = readValue (EndValue (JString (coerced s))) (ArrayValue elems # below)
          (CHR '','' # encode_elems (t # ss) @ CHR '']'' # cs)"
    using read_string [of "ArrayValue elems # below" s
        "CHR '','' # encode_elems (t # ss) @ CHR '']'' # cs"] by simp
  also have "\<dots> = readValue BeginValue (ArrayValue (elems @ [JString (coerced s)]) # below)
                      (encode_elems (t # ss) @ CHR '']'' # cs)"
    by (simp add: stateEndValue_def isSpace_def)
  also have "\<dots> = readValue (EndValue (JArray ((elems @ [JString (coerced s)])
                        @ map (\<lambda>s. JString (coerced s)) (t # ss)))) below cs"
    using 3 by (intro "3.IH") simp_all
  finally show ?case by simp
qed

lemma encode_elems_starts: "ss \<noteq> [] \<Longrightarrow> \<exists>rest. encode_elems ss = dquote # rest"
  by (induction ss rule: encode_elems.induct) (simp_all add: encode_string_def)

lemma read_slice:
  "readValue BeginValue [ObjectValue members key] (encode_slice s @ cs) =
   readValue (EndValue (slice_json (map_option (map coerced) s))) [ObjectValue members key] cs"
proof (cases s)
  case None
  then show ?thesis
    by (simp add: encode_slice_def slice_json_def stateBeginValue_def isSpace_def ended_def)
next
  case (Some ss)
  show ?thesis
  proof (cases "ss = []")
    case True
    then show ?thesis
      by (simp add: Some encode_slice_def slice_json_def stateBeginValue_def isSpace_def
          ended_def pushParseState_def maxNestingDepth_def)
  next
    case False
    obtain rest where rest: "encode_elems ss = dquote # rest"
      using encode_elems_starts [OF False] by blast
    have "readValue BeginValue [ObjectValue members key] (encode_slice s @ cs)
        = readValue BeginValueOrEmpty [ArrayValue [], ObjectValue members key]
            (encode_elems ss @ CHR '']'' # cs)"
      by (simp add: Some encode_slice_def stateBeginValue_def isSpace_def pushParseState_def
          maxNestingDepth_def)
    also have "\<dots> = readValue BeginValue [ArrayValue [], ObjectValue members key]
            (encode_elems ss @ CHR '']'' # cs)"
      by (simp add: rest stateBeginValue_def isSpace_def)
    also have "\<dots> = readValue (EndValue (JArray ([] @ map (\<lambda>s. JString (coerced s)) ss)))
            [ObjectValue members key] cs"
      using False by (intro read_elems) simp_all
    finally show ?thesis by (simp add: Some slice_json_def o_def)
  qed
qed

lemma key_literals:
  "coerced ''folderName'' = ''folderName''"
  "coerced ''lastUpdate'' = ''lastUpdate''"
  "coerced ''folderToWatch'' = ''folderToWatch''"
  by (simp_all add: rune_width_def byte_def RuneError_def)

text \<open>The value the scanner reads from an encoded configuration.\<close>

lemma read_marshalled:
  "\<exists>j. json_Marshal c = Inr j \<and>
       readValue BeginValue [] j =
         Inr (JObject [(''folderName'', JString (coerced (FolderName c))),
                       (''lastUpdate'', JString (coerced (LastUpdate c))),
                       (''folderToWatch'', slice_json (map_option (map coerced) (FolderToWatch c)))])"
proof -
  let ?m1 = "[(''folderName'', JString (coerced (FolderName c)))]"
  let ?m2 = "?m1 @ [(''lastUpdate'', JString (coerced (LastUpdate c)))]"
  let ?m3 = "?m2 @ [(''folderToWatch'', slice_json (map_option (map coerced) (FolderToWatch c)))]"
  let ?rest3 = "CHR ''}'' # []"
  let ?rest2 = "encode_string ''folderToWatch'' @ CHR '':'' # encode_slice (FolderToWatch c) @ ?rest3"
  let ?rest1 = "encode_string ''lastUpdate'' @ CHR '':'' # encode_string (LastUpdate c)
                  @ CHR '','' # ?rest2"
  let ?j = "CHR ''{'' # encode_string ''folderName'' @ CHR '':'' # encode_string (FolderName c)
             @ CHR '','' # ?rest1"
  have m: "json_Marshal c = Inr ?j" by (simp add: json_Marshal_def)
  have "readValue BeginValue [] ?j
      = readValue BeginStringOrEmpty [ObjectKey []]
          (encode_string ''folderName'' @ CHR '':'' # encode_string (FolderName c) @ CHR '','' # ?rest1)"
    by (simp add: stateBeginValue_def isSpace_def pushParseState_def maxNestingDepth_def)
  also have "\<dots> = readValue BeginValue [ObjectValue [] ''folderName'']
          (encode_string (FolderName c) @ CHR '','' # ?rest1)"
    by (rule read_key) (simp_all add: key_literals del: coerced.simps)
  also have "\<dots> = readValue (EndValue (JString (coerced (FolderName c))))
          [ObjectValue [] ''folderName''] (CHR '','' # ?rest1)"
    by (rule read_string) simp
  also have "\<dots> = readValue BeginString [ObjectKey ?m1] ?rest1"
    by (simp add: stateEndValue_def isSpace_def del: encode_chars.simps coerced.simps)
  also have "\<dots> = readValue BeginValue [ObjectValue ?m1 ''lastUpdate'']
          (encode_string (LastUpdate c) @ CHR '','' # ?rest2)"
    by (rule read_key) (simp_all add: key_literals del: coerced.simps)
  also have "\<dots> = readValue (EndValue (JString (coerced (LastUpdate c))))
          [ObjectValue ?m1 ''lastUpdate''] (CHR '','' # ?rest2)"
    by (rule read_string) simp
  also have "\<dots> = readValue BeginString [ObjectKey ?m2] ?rest2"
    by (simp add: stateEndValue_def isSpace_def del: encode_chars.simps coerced.simps)
  also have "\<dots> = readValue BeginValue [ObjectValue ?m2 ''folderToWatch'']
          (encode_slice (FolderToWatch c) @ ?rest3)"
    by (rule read_key) (simp_all add: key_literals del: coerced.simps)
  also have "\<dots> = readValue (EndValue (slice_json (map_option (map coerced) (FolderToWatch c))))
          [ObjectValue ?m2 ''folderToWatch''] ?rest3"
    by (rule read_slice)
  also have "\<dots> = Inr (JObject ?m3)"
    by (simp add: stateEndValue_def isSpace_def ended_def del: coerced.simps)
  finally show ?thesis using m by (simp del: coerced.simps)
qed

lemma store_elems_strings:
  "foldl (\<lambda>acc j. case acc of (elems, saved) \<Rightarrow>
                       (case store_string j
                               (if length elems < length former then former ! length elems else [])
                               saved of
                          (s, saved') \<Rightarrow> (elems @ [s], saved')))
           (acc, savedError) (map JString ss) = (acc @ ss, savedError)"
  by (induction ss arbitrary: acc) (simp_all add: store_string_def)

lemma store_slice_json: "store_slice (slice_json s) v savedError = (s, savedError)"
  by (cases s) (simp_all add: store_slice_def slice_json_def store_elems_def store_elems_strings)

lemma find_field_tags:
  "find_field ''folderName'' = Some ''folderName''"
  "find_field ''lastUpdate'' = Some ''lastUpdate''"
  "find_field ''folderToWatch'' = Some ''folderToWatch''"
  by (simp_all add: find_field_def tags_def)

lemma unmarshal_members:
  "unmarshal (JObject [(''folderName'', JString a), (''lastUpdate'', JString b),
                       (''folderToWatch'', slice_json s)]) v =
   (\<lparr>FolderName = a, LastUpdate = b, FolderToWatch = s\<rparr>, None)"
  by (simp add: unmarshal_def store_member_def find_field_tags store_string_def store_slice_json)

text \<open>Decoding what \<open>json.Marshal\<close> has written gives the configuration coerced to valid
  UTF-8, whatever the destination held.\<close>

lemma json_round_trip:
  "\<exists>j. json_Marshal c = Inr j \<and> json_Decode j v = (coerced_appConfig c, None)"
proof -
  obtain j where j: "json_Marshal c = Inr j"
    "readValue BeginValue [] j =
         Inr (JObject [(''folderName'', JString (coerced (FolderName c))),
                       (''lastUpdate'', JString (coerced (LastUpdate c))),
                       (''folderToWatch'', slice_json (map_option (map coerced) (FolderToWatch c)))])"
    using read_marshalled [of c] by blast
  have "json_Decode j v = (coerced_appConfig c, None)"
    by (simp only: json_Decode_def j(2) sum.case unmarshal_members coerced_appConfig_def)
  then show ?thesis using j(1) by blast
qed

lemma coerced_appConfig_iff: "(coerced_appConfig c = c) = valid_appConfig c"
proof -
  have l: "(map coerced ss = ss) = list_all valid_utf8 ss" for ss
    by (induction ss) (auto simp: coerced_iff)
  have "(coerced_appConfig c = c) =
        (coerced (FolderName c) = FolderName c \<and> coerced (LastUpdate c) = LastUpdate c
         \<and> map_option (map coerced) (FolderToWatch c) = FolderToWatch c)"
    by (cases c) (auto simp: coerced_appConfig_def)
  also have "\<dots> = valid_appConfig c"
    by (cases "FolderToWatch c") (simp_all add: valid_appConfig_def coerced_iff l elements_def)
  finally show ?thesis .
qed

lemma save_then_load:
  assumes "writable w" "json_Marshal (configApp w) = Inr j"
  shows "loadConfig (saveConfigJSONFile w) =
         (case json_Decode j zero_appConfig of
            (config, Some err) \<Rightarrow> (config, Some (Inr err))
          | (config, None) \<Rightarrow> (config, None))"
  using assms
  by (simp add: loadConfig_def saveConfigJSONFile_def ioutil_WriteFile_def os_Open_def Let_def)

lemma save_then_load_coerced:
  assumes "writable w"
  shows "loadConfig (saveConfigJSONFile w) = (coerced_appConfig (configApp w), None)"
proof -
  obtain j where j: "json_Marshal (configApp w) = Inr j"
      "json_Decode j zero_appConfig = (coerced_appConfig (configApp w), None)"
    using json_round_trip [of "configApp w" zero_appConfig] by blast
  show ?thesis using save_then_load [OF assms j(1)] by (simp add: j(2))
qed

text \<open>
  \<^bold>\<open>C8\<close>, as amended. For a configuration whose folder name, timestamp and watched paths are
  valid UTF-8, decoding what \<open>json.Marshal\<close> produces gives the configuration back, with no
  error and whatever the destination held, and so does \<open>loadConfig\<close> after
  \<open>saveConfigJSONFile\<close> when the file can be written. For any configuration what comes back
  is the configuration coerced to valid UTF-8, each byte that is not part of a valid
  encoding replaced by U+FFFD; that is the configuration itself only if it is valid UTF-8.
\<close>

theorem config_round_trip:
  "(valid_appConfig c \<longrightarrow>
      (\<exists>j. json_Marshal c = Inr j \<and> json_Decode j v = (c, None))
      \<and> (writable w \<and> configApp w = c \<longrightarrow> loadConfig (saveConfigJSONFile w) = (c, None)))
   \<and> (\<exists>j. json_Marshal c = Inr j \<and> json_Decode j v = (coerced_appConfig c, None))
   \<and> (writable w \<and> configApp w = c \<longrightarrow>
         loadConfig (saveConfigJSONFile w) = (coerced_appConfig c, None))
   \<and> (coerced_appConfig c = c) = valid_appConfig c"
proof -
  have general: "\<exists>j. json_Marshal c = Inr j \<and> json_Decode j v = (coerced_appConfig c, None)"
    by (rule json_round_trip)
  have saved: "loadConfig (saveConfigJSONFile w) = (coerced_appConfig c, None)"
    if "writable w" "configApp w = c"
    using save_then_load_coerced [OF that(1)] that(2) by simp
  have fixed: "(coerced_appConfig c = c) = valid_appConfig c"
    by (rule coerced_appConfig_iff)
  show ?thesis using general saved fixed by auto
qed

text \<open>The configuration of \<open>first_run\<close>, saved and loaded.\<close>

theorem config_round_trip_witness:
  "valid_appConfig (configApp first_run) \<and> writable first_run
   \<and> loadConfig (saveConfigJSONFile first_run) =
       (\<lparr>FolderName = ''EncryptBckDoc'', LastUpdate = [], FolderToWatch = Some [''/docs'']\<rparr>, None)"
proof -
  have v: "valid_appConfig (configApp first_run)"
    by (simp add: valid_appConfig_def first_run_def rune_width_def byte_def RuneError_def
        elements_def)
  have w: "writable first_run" by (simp add: first_run_def)
  have c: "configApp first_run =
      \<lparr>FolderName = ''EncryptBckDoc'', LastUpdate = [], FolderToWatch = Some [''/docs'']\<rparr>"
    by (simp add: first_run_def)
  show ?thesis
    using config_round_trip [of "configApp first_run" zero_appConfig first_run] v w by (simp add: c)
qed

text \<open>
  The claim as it is written, for every configuration, fails: \<open>json.Marshal\<close> writes a byte
  that is not valid UTF-8 as the escape of U+FFFD, and the path comes back with three other
  bytes in its place.
\<close>

theorem config_round_trip_counterexample:
  "writable odd_path
   \<and> FolderToWatch (configApp odd_path) = Some [''/srv/'' @ [CHR 0xFF]]
   \<and> loadConfig (saveConfigJSONFile odd_path) =
       (\<lparr>FolderName = ''EncryptBckDoc'', LastUpdate = [],
         FolderToWatch = Some [''/srv/'' @ [CHR 0xEF, CHR 0xBF, CHR 0xBD]]\<rparr>, None)
   \<and> fst (loadConfig (saveConfigJSONFile odd_path)) \<noteq> configApp odd_path"
proof -
  have w: "writable odd_path" by (simp add: odd_path_def first_run_def)
  have c: "FolderToWatch (configApp odd_path) = Some [''/srv/'' @ [CHR 0xFF]]"
    by (simp add: odd_path_def)
  have co: "coerced_appConfig (configApp odd_path) =
       \<lparr>FolderName = ''EncryptBckDoc'', LastUpdate = [],
         FolderToWatch = Some [''/srv/'' @ [CHR 0xEF, CHR 0xBF, CHR 0xBD]]\<rparr>"
    by (simp add: odd_path_def coerced_appConfig_def rune_width_def byte_def RuneError_def
        EncodeRune_def Let_def char_of_def bit_iff_odd)
  have l: "loadConfig (saveConfigJSONFile odd_path) =
       (\<lparr>FolderName = ''EncryptBckDoc'', LastUpdate = [],
         FolderToWatch = Some [''/srv/'' @ [CHR 0xEF, CHR 0xBF, CHR 0xBD]]\<rparr>, None)"
    using save_then_load_coerced [OF w] by (simp only: co)
  have ne: "fst (loadConfig (saveConfigJSONFile odd_path)) \<noteq> configApp odd_path"
  proof
    assume "fst (loadConfig (saveConfigJSONFile odd_path)) = configApp odd_path"
    then have "FolderToWatch (fst (loadConfig (saveConfigJSONFile odd_path)))
        = FolderToWatch (configApp odd_path)" by simp
    then show False by (simp add: l c)
  qed
  show ?thesis using w c l ne by simp
qed

end
